theory Spec2Isabelle
  imports Main "HOL-Library.Sublist"
begin

section \<open>Values shared by the transport and the resolver\<close>

text \<open>
  The synchronisation core of the app is two modules: the class \<open>ApiSocket\<close> (the
  transport session with its peer RPC) and the server resolver (probing, race, cached
  Active URL, debounce). Both are asynchronous TypeScript. An \<open>async\<close> function is
  modelled by what its promise settles to: fulfilled with a value, rejected with an
  error, or never settled.
\<close>

type_synonym url = string

datatype js_error = Error string | TypeError | AbortError | NetworkError

datatype 'a promise = Fulfilled 'a | Rejected js_error | Forever

text \<open>
  JavaScript truthiness of a value of type \<open>string | null\<close>: \<open>null\<close> and the empty
  string are falsy, every other string is truthy.
\<close>

fun truthy :: "string option \<Rightarrow> bool" where
  "truthy None = False"
| "truthy (Some s) = (s \<noteq> [])"

text \<open>\<open>text.includes(s)\<close> of JavaScript: \<open>s\<close> occurs in \<open>text\<close> as a contiguous run.\<close>

fun str_includes :: "string \<Rightarrow> string \<Rightarrow> bool" where
  "str_includes [] s = (s = [])"
| "str_includes (c # cs) s = (prefix s (c # cs) \<or> str_includes cs s)"

section \<open>Server resolver\<close>

subsection \<open>The network as seen by one \<open>fetch\<close>\<close>

text \<open>
  What the platform's \<open>fetch\<close> does for a URL is a parameter of the model. Either the
  response headers arrive after some milliseconds, carrying the \<open>ok\<close> flag, and the body
  is then read by \<open>response.text()\<close> (which yields a text, rejects, or never finishes);
  or the request fails after some milliseconds; or nothing ever comes back.
\<close>

datatype body_read = BodyText string | BodyFails | BodyStalls

datatype fetch_behaviour =
    Responds nat bool body_read
  | Fails nat
  | Silent

definition marker :: string where
  "marker = ''Welcome to Happy Server!''"

text \<open>
  The \<open>try\<close> block of \<open>probeUrl\<close>. The timer aborts the request \<open>timeoutMs\<close>
  milliseconds after it was issued unless the headers arrived earlier (the timer is
  cleared as soon as \<open>fetch\<close> resolves, so reading the body is not bounded by it). An
  aborted or failed request, and a failed body read, are exceptions inside the block.
\<close>

definition probeUrl_try :: "(url \<Rightarrow> fetch_behaviour) \<Rightarrow> url \<Rightarrow> nat \<Rightarrow> url option promise" where
  "probeUrl_try net u timeoutMs =
     (case net u of
        Silent \<Rightarrow> Rejected AbortError
      | Fails t \<Rightarrow> (if t < timeoutMs then Rejected NetworkError else Rejected AbortError)
      | Responds t ok body \<Rightarrow>
          if \<not> t < timeoutMs then Rejected AbortError
          else if \<not> ok then Fulfilled None
          else (case body of
                  BodyFails \<Rightarrow> Rejected NetworkError
                | BodyStalls \<Rightarrow> Forever
                | BodyText str \<Rightarrow>
                    if \<not> str_includes str marker then Fulfilled None
                    else Fulfilled (Some u)))"

text \<open>\<open>probeUrl\<close>: the block above inside \<open>try { ... } catch { return null; }\<close>.\<close>

definition probeUrl :: "(url \<Rightarrow> fetch_behaviour) \<Rightarrow> url \<Rightarrow> nat \<Rightarrow> url option promise" where
  "probeUrl net u timeoutMs =
     (case probeUrl_try net u timeoutMs of
        Rejected e \<Rightarrow> Fulfilled None
      | r \<Rightarrow> r)"

text \<open>The default argument \<open>timeoutMs = 3000\<close>, which is what \<open>raceProbes\<close> uses.\<close>

definition probeUrl_default :: "(url \<Rightarrow> fetch_behaviour) \<Rightarrow> url \<Rightarrow> url option promise" where
  "probeUrl_default net u = probeUrl net u 3000"

subsection \<open>The race\<close>

text \<open>
  \<open>raceProbes\<close> starts one probe per candidate and attaches a \<open>then\<close> callback to
  each. The callbacks share the flag \<open>settled\<close> and the counter \<open>pending\<close>; \<open>resolved\<close>
  is what the returned promise has been resolved with, if it has been.
\<close>

record race =
  settled :: bool
  pending :: int
  resolved :: "url option option"

definition race_then :: "url option \<Rightarrow> race \<Rightarrow> race" where
  "race_then result r =
     (if settled r then r
      else if truthy result then r\<lparr>settled := True, resolved := Some result\<rparr>
      else (let r1 = r\<lparr>pending := pending r - 1\<rparr> in
            if pending r1 = 0 then r1\<lparr>settled := True, resolved := Some None\<rparr> else r1))"

text \<open>
  The probes settle in some order, which the network decides. That order is the
  parameter \<open>sched\<close>: the candidates whose probes settle, in the order in which they do.
  A callback runs when its probe is fulfilled; a probe that is rejected or never
  settles runs none.
\<close>

definition race_settle :: "(url \<Rightarrow> url option promise) \<Rightarrow> race \<Rightarrow> url \<Rightarrow> race" where
  "race_settle probe r u =
     (case probe u of
        Fulfilled result \<Rightarrow> race_then result r
      | Rejected e \<Rightarrow> r
      | Forever \<Rightarrow> r)"

definition raceProbes :: "(url \<Rightarrow> url option promise) \<Rightarrow> url list \<Rightarrow> url list \<Rightarrow> url option promise" where
  "raceProbes probe candidates sched =
     (if length candidates = 0 then Fulfilled None
      else if length candidates = 1 then probe (candidates ! 0)
      else (case resolved (foldl (race_settle probe)
                             \<lparr>settled = False, pending = int (length candidates), resolved = None\<rparr>
                             sched) of
              None \<Rightarrow> Forever
            | Some winner \<Rightarrow> Fulfilled winner))"

text \<open>
  A completion order for a list of distinct candidates names each candidate whose probe
  settles exactly once, and no other.
\<close>

definition completion_order :: "(url \<Rightarrow> url option promise) \<Rightarrow> url list \<Rightarrow> url list \<Rightarrow> bool" where
  "completion_order probe candidates sched \<longleftrightarrow>
     distinct sched \<and> set sched = set (filter (\<lambda>u. probe u \<noteq> Forever) candidates)"

text \<open>A probe has succeeded when it is fulfilled with a truthy value.\<close>

definition succeeded :: "(url \<Rightarrow> url option promise) \<Rightarrow> url \<Rightarrow> bool" where
  "succeeded probe u = (case probe u of Fulfilled v \<Rightarrow> truthy v | Rejected e \<Rightarrow> False | Forever \<Rightarrow> False)"

subsection \<open>Resolver state and operations\<close>

text \<open>
  \<open>getServerUrl()\<close> and \<open>getManualLanUrl()\<close> belong to the settings module; what they
  return is a parameter. The module variables \<open>activeUrl\<close> and
  \<open>lastFailureNotification\<close> and the storage entry under \<open>ACTIVE_URL_KEY\<close> are the state.
\<close>

record server_config =
  getServerUrl :: url
  getManualLanUrl :: "url option"

record resolver =
  activeUrl :: "url option"
  storedActiveUrl :: "url option"
  lastFailureNotification :: int

definition initial_resolver :: "url option \<Rightarrow> resolver" where
  "initial_resolver stored =
     \<lparr>activeUrl = stored, storedActiveUrl = stored, lastFailureNotification = 0\<rparr>"

definition FAILURE_DEBOUNCE_MS :: int where
  "FAILURE_DEBOUNCE_MS = 10000"

definition candidates_of :: "server_config \<Rightarrow> url list" where
  "candidates_of cfg =
     (let primaryUrl = getServerUrl cfg; lanUrl = getManualLanUrl cfg in
      [primaryUrl] @
      (case lanUrl of
         None \<Rightarrow> []
       | Some lan \<Rightarrow> if truthy lanUrl \<and> lan \<noteq> primaryUrl then [lan] else []))"

text \<open>
  One pass of \<open>resolveNow\<close>, that is the function run inside the lock. It reads the
  settings when it starts and writes when the race has settled, so its effect is a
  transformer of the state found at that moment, together with what the pass's own
  promise settles to. A pass whose race never settles writes nothing.
\<close>

definition resolveNow :: "server_config \<Rightarrow> (url \<Rightarrow> fetch_behaviour) \<Rightarrow> url list \<Rightarrow> resolver \<Rightarrow> unit promise \<times> resolver" where
  "resolveNow cfg net sched st =
     (case raceProbes (probeUrl_default net) (candidates_of cfg) sched of
        Fulfilled winner \<Rightarrow>
          (Fulfilled (),
           if truthy winner then st\<lparr>activeUrl := winner, storedActiveUrl := winner\<rparr> else st)
      | Rejected e \<Rightarrow> (Rejected e, st)
      | Forever \<Rightarrow> (Forever, st))"

text \<open>
  \<open>getResolvedServerUrl\<close> returns the URL, the new state, and whether it has started a
  \<open>resolveNow()\<close> in the background (the call is not awaited).
\<close>

definition getResolvedServerUrl :: "server_config \<Rightarrow> resolver \<Rightarrow> url \<times> resolver \<times> bool" where
  "getResolvedServerUrl cfg st =
     (let cold = (let primary = getServerUrl cfg in (primary, st\<lparr>activeUrl := Some primary\<rparr>, True)) in
      case activeUrl st of
        None \<Rightarrow> cold
      | Some a \<Rightarrow> if truthy (activeUrl st) then (a, st, False) else cold)"

definition resetResolver :: "resolver \<Rightarrow> resolver" where
  "resetResolver st = st\<lparr>activeUrl := None, storedActiveUrl := None\<rparr>"

text \<open>
  \<open>notifyConnectionFailed\<close> at clock reading \<open>now\<close> (milliseconds, \<open>Date.now()\<close>): the new
  state and whether a \<open>resolveNow()\<close> was started.
\<close>

definition notifyConnectionFailed :: "int \<Rightarrow> resolver \<Rightarrow> resolver \<times> bool" where
  "notifyConnectionFailed now st =
     (if now - lastFailureNotification st < FAILURE_DEBOUNCE_MS then (st, False)
      else (st\<lparr>lastFailureNotification := now\<rparr>, True))"

definition isUsingLanUrl :: "server_config \<Rightarrow> resolver \<Rightarrow> bool" where
  "isUsingLanUrl cfg st =
     (if \<not> truthy (activeUrl st) then False
      else getManualLanUrl cfg \<noteq> None \<and> activeUrl st = getManualLanUrl cfg)"

text \<open>
  The public operations of the resolver module as one step function, for statements
  about every operation. A resolution pass started in the background (by
  \<open>getResolvedServerUrl\<close> or \<open>notifyConnectionFailed\<close>) takes effect as a later
  \<open>ResolveNow\<close> step of its own.
\<close>

datatype resolver_op =
    ResolveNow "url \<Rightarrow> fetch_behaviour" "url list"
  | GetResolvedServerUrl
  | ResetResolver
  | NotifyConnectionFailed int
  | IsUsingLanUrl

fun run_op :: "server_config \<Rightarrow> resolver_op \<Rightarrow> resolver \<Rightarrow> resolver" where
  "run_op cfg (ResolveNow net sched) st = snd (resolveNow cfg net sched st)"
| "run_op cfg GetResolvedServerUrl st = fst (snd (getResolvedServerUrl cfg st))"
| "run_op cfg ResetResolver st = resetResolver st"
| "run_op cfg (NotifyConnectionFailed now) st = fst (notifyConnectionFailed now st)"
| "run_op cfg IsUsingLanUrl st = st"

text \<open>Whether an operation is a resolution pass, the only one that probes.\<close>

fun runs_race :: "resolver_op \<Rightarrow> bool" where
  "runs_race (ResolveNow net sched) = True"
| "runs_race op = False"

text \<open>
  A series of \<open>notifyConnectionFailed\<close> calls at the given clock readings: the final
  state and the number of resolution passes started.
\<close>

fun notify_all :: "int list \<Rightarrow> resolver \<Rightarrow> resolver \<times> nat" where
  "notify_all [] st = (st, 0)"
| "notify_all (now # rest) st =
     (case notifyConnectionFailed now st of
        (st1, started) \<Rightarrow>
          (case notify_all rest st1 of
             (st2, n) \<Rightarrow> (st2, (if started then 1 else 0) + n)))"

section \<open>Transport session: \<open>ApiSocket\<close>\<close>

subsection \<open>State\<close>

datatype connection_status = disconnected | connecting | connected | error

text \<open>
  Listeners are callbacks. They are modelled as names, and calling one is an observable
  effect; a listener is assumed neither to throw nor to call back into the socket.
\<close>

type_synonym listener = nat

type_synonym payload = string

text \<open>
  The socket.io client object, as far as \<open>ApiSocket\<close> reads it: the flags
  \<open>connected\<close> and \<open>recovered\<close>, and the number of one-shot \<open>connect\<close> listeners that
  \<open>waitForConnection\<close> has registered on it.
\<close>

record socket =
  sock_connected :: bool
  sock_recovered :: bool
  connectOnce :: nat

record sync_config =
  endpoint :: string
  token :: string

text \<open>
  The class \<open>Encryption\<close> is imported from another module. What its two lookups return
  is a parameter: for each peer either no cipher or a cipher with its two operations.
\<close>

record cipher =
  encryptRaw :: "payload \<Rightarrow> payload promise"
  decryptRaw :: "payload \<Rightarrow> payload promise"

record encryption_registry =
  getSessionEncryption :: "string \<Rightarrow> cipher option"
  getMachineEncryption :: "string \<Rightarrow> cipher option"

record api_socket =
  socket :: "socket option"
  config :: "sync_config option"
  encryption :: "encryption_registry option"
  reconnectedListeners :: "listener list"
  statusListeners :: "listener list"
  currentStatus :: connection_status
  networkSubscription :: bool

text \<open>The field initialisers of the class.\<close>

definition new_ApiSocket :: api_socket where
  "new_ApiSocket =
     \<lparr>socket = None, config = None, encryption = None, reconnectedListeners = [],
      statusListeners = [], currentStatus = disconnected, networkSubscription = False\<rparr>"

text \<open>What goes over the wire with an event, and the acknowledgement of an RPC call.\<close>

datatype wire_data = RpcCall string payload | Raw payload

record ack =
  ok :: bool
  result :: payload

text \<open>The observable actions of an operation, in the order in which it performs them.\<close>

datatype effect =
    Notify listener connection_status
  | NotifyReconnected listener
  | SocketOpen string string
  | SocketClose
  | AwaitConnect
  | EmitWithAck string wire_data

text \<open>
  What the rest of the world does during one asynchronous call: after how many
  milliseconds the socket fires \<open>connect\<close> (and whether that connection is a recovered
  one), if it ever does, and what the server acknowledges for an emitted event.
\<close>

record transport_env =
  connectsAfter :: "(nat \<times> bool) option"
  serverAck :: "string \<Rightarrow> wire_data \<Rightarrow> ack promise"

text \<open>A JavaScript \<open>Set\<close> iterates in insertion order; adding a member again changes nothing.\<close>

definition set_add :: "'a \<Rightarrow> 'a list \<Rightarrow> 'a list" where
  "set_add x xs = (if x \<in> set xs then xs else xs @ [x])"

definition set_delete :: "'a \<Rightarrow> 'a list \<Rightarrow> 'a list" where
  "set_delete x xs = filter (\<lambda>y. y \<noteq> x) xs"

subsection \<open>Status and listeners\<close>

definition updateStatus :: "connection_status \<Rightarrow> api_socket \<Rightarrow> api_socket \<times> effect list" where
  "updateStatus status s =
     (if currentStatus s \<noteq> status
      then (s\<lparr>currentStatus := status\<rparr>, map (\<lambda>l. Notify l status) (statusListeners s))
      else (s, []))"

definition onStatusChange :: "listener \<Rightarrow> api_socket \<Rightarrow> api_socket \<times> effect list" where
  "onStatusChange l s =
     (s\<lparr>statusListeners := set_add l (statusListeners s)\<rparr>, [Notify l (currentStatus s)])"

text \<open>The function that \<open>onStatusChange\<close> returns.\<close>

definition offStatusChange :: "listener \<Rightarrow> api_socket \<Rightarrow> api_socket" where
  "offStatusChange l s = s\<lparr>statusListeners := set_delete l (statusListeners s)\<rparr>"

subsection \<open>Connection management and socket events\<close>

definition connect :: "api_socket \<Rightarrow> api_socket \<times> effect list" where
  "connect s =
     (case config s of
        None \<Rightarrow> (s, [])
      | Some c \<Rightarrow>
          if socket s \<noteq> None then (s, [])
          else (case updateStatus connecting s of
                  (s1, fx) \<Rightarrow>
                    (s1\<lparr>socket := Some \<lparr>sock_connected = False, sock_recovered = False, connectOnce = 0\<rparr>,
                        networkSubscription := True\<rparr>,
                     fx @ [SocketOpen (endpoint c) (token c)])))"

text \<open>
  \<open>disconnect()\<close>. Closing a connected socket makes it fire \<open>disconnect\<close>, whose handler
  already sets the status; the \<open>updateStatus\<close> at the end of the method then finds
  nothing to change. Either way the listeners are called once, which is what the single
  \<open>updateStatus\<close> of the model does.
\<close>

definition disconnect :: "api_socket \<Rightarrow> api_socket \<times> effect list" where
  "disconnect s =
     (let s1 = s\<lparr>networkSubscription := False\<rparr>;
          closing = (case socket s1 of None \<Rightarrow> [] | Some sock \<Rightarrow> [SocketClose]);
          s2 = s1\<lparr>socket := None\<rparr>
      in case updateStatus disconnected s2 of (s3, fx) \<Rightarrow> (s3, closing @ fx))"

text \<open>
  The handlers that \<open>setupEventHandlers\<close> installs on the socket. The socket that fires
  an event has set its own flags before; \<open>socket_flags\<close> records them when that socket
  is the one the class holds. The handlers themselves do not test \<open>this.socket\<close>: they
  call \<open>updateStatus\<close> in every case, and the \<open>connect\<close> handler calls the reconnected
  listeners unless \<open>this.socket?.recovered\<close> is true, so also when the class holds no
  socket.
\<close>

datatype socket_event = EvConnect bool | EvDisconnect | EvConnectError | EvError

definition socket_flags :: "(socket \<Rightarrow> socket) \<Rightarrow> api_socket \<Rightarrow> api_socket" where
  "socket_flags f s = (case socket s of None \<Rightarrow> s | Some sock \<Rightarrow> s\<lparr>socket := Some (f sock)\<rparr>)"

fun on_socket_event :: "socket_event \<Rightarrow> api_socket \<Rightarrow> api_socket \<times> effect list" where
  "on_socket_event (EvConnect rec) s =
     (case updateStatus connected
             (socket_flags (\<lambda>sock. sock\<lparr>sock_connected := True, sock_recovered := rec\<rparr>) s) of
        (s1, fx) \<Rightarrow>
          (s1, fx @ (if \<not> (case socket s1 of None \<Rightarrow> False | Some sock \<Rightarrow> sock_recovered sock)
                     then map NotifyReconnected (reconnectedListeners s1) else [])))"
| "on_socket_event EvDisconnect s =
     updateStatus disconnected (socket_flags (\<lambda>sock. sock\<lparr>sock_connected := False\<rparr>) s)"
| "on_socket_event EvConnectError s = updateStatus error s"
| "on_socket_event EvError s = updateStatus error s"

subsection \<open>Waiting for the connection, acknowledged sends, peer RPC\<close>

text \<open>
  \<open>waitForConnection\<close>. With a socket that is not connected it registers a one-shot
  \<open>connect\<close> listener and a timer. If the socket fires \<open>connect\<close> before the timer does,
  the handlers of the event run (the class's own first, then the one-shot listener, which
  the socket removes as it calls it) and the wait is over. Otherwise the timer removes
  the listener again and rejects.
\<close>

definition waitForConnection :: "transport_env \<Rightarrow> nat \<Rightarrow> api_socket \<Rightarrow> unit promise \<times> api_socket \<times> effect list" where
  "waitForConnection env timeoutMs s =
     (case socket s of
        None \<Rightarrow> (Rejected (Error ''Socket not initialized''), s, [])
      | Some sock \<Rightarrow>
          if sock_connected sock then (Fulfilled (), s, [])
          else
            (let waiting = s\<lparr>socket := Some (sock\<lparr>connectOnce := connectOnce sock + 1\<rparr>)\<rparr>;
                 unhook = (\<lambda>w. case socket w of
                                   None \<Rightarrow> w
                                 | Some k \<Rightarrow> w\<lparr>socket := Some (k\<lparr>connectOnce := connectOnce k - 1\<rparr>)\<rparr>);
                 timeout = (Rejected (Error ''Socket connection timeout''), unhook waiting, [AwaitConnect])
             in case connectsAfter env of
                  None \<Rightarrow> timeout
                | Some (t, rec) \<Rightarrow>
                    if t < timeoutMs
                    then (case on_socket_event (EvConnect rec) waiting of
                            (s1, fx) \<Rightarrow> (Fulfilled (), unhook s1, AwaitConnect # fx))
                    else timeout))"

definition emitWithAck :: "transport_env \<Rightarrow> string \<Rightarrow> wire_data \<Rightarrow> api_socket \<Rightarrow> ack promise \<times> api_socket \<times> effect list" where
  "emitWithAck env event data s =
     (case waitForConnection env 10000 s of
        (Rejected e, s1, fx) \<Rightarrow> (Rejected e, s1, fx)
      | (Forever, s1, fx) \<Rightarrow> (Forever, s1, fx)
      | (Fulfilled u, s1, fx) \<Rightarrow>
          (case socket s1 of
             None \<Rightarrow> (Rejected TypeError, s1, fx)
           | Some sock \<Rightarrow> (serverAck env event data, s1, fx @ [EmitWithAck event data])))"

definition sessionRPC :: "transport_env \<Rightarrow> string \<Rightarrow> string \<Rightarrow> payload \<Rightarrow> api_socket \<Rightarrow> payload promise \<times> api_socket \<times> effect list" where
  "sessionRPC env sessionId method params s =
     (case encryption s of
        None \<Rightarrow> (Rejected TypeError, s, [])
      | Some enc \<Rightarrow>
          (case getSessionEncryption enc sessionId of
             None \<Rightarrow> (Rejected (Error (''Session encryption not found for '' @ sessionId)), s, [])
           | Some sessionEncryption \<Rightarrow>
               (case waitForConnection env 10000 s of
                  (Rejected e, s1, fx) \<Rightarrow> (Rejected e, s1, fx)
                | (Forever, s1, fx) \<Rightarrow> (Forever, s1, fx)
                | (Fulfilled u, s1, fx) \<Rightarrow>
                    (case socket s1 of
                       None \<Rightarrow> (Rejected TypeError, s1, fx)
                     | Some sock \<Rightarrow>
                         (case encryptRaw sessionEncryption params of
                            Rejected e \<Rightarrow> (Rejected e, s1, fx)
                          | Forever \<Rightarrow> (Forever, s1, fx)
                          | Fulfilled encrypted \<Rightarrow>
                              (let call = RpcCall (sessionId @ '':'' @ method) encrypted;
                                   fx1 = fx @ [EmitWithAck ''rpc-call'' call]
                               in case serverAck env ''rpc-call'' call of
                                    Rejected e \<Rightarrow> (Rejected e, s1, fx1)
                                  | Forever \<Rightarrow> (Forever, s1, fx1)
                                  | Fulfilled res \<Rightarrow>
                                      if ok res then (decryptRaw sessionEncryption (result res), s1, fx1)
                                      else (Rejected (Error ''RPC call failed''), s1, fx1)))))))"

definition machineRPC :: "transport_env \<Rightarrow> string \<Rightarrow> string \<Rightarrow> payload \<Rightarrow> api_socket \<Rightarrow> payload promise \<times> api_socket \<times> effect list" where
  "machineRPC env machineId method params s =
     (case encryption s of
        None \<Rightarrow> (Rejected TypeError, s, [])
      | Some enc \<Rightarrow>
          (case getMachineEncryption enc machineId of
             None \<Rightarrow> (Rejected (Error (''Machine encryption not found for '' @ machineId)), s, [])
           | Some machineEncryption \<Rightarrow>
               (case waitForConnection env 10000 s of
                  (Rejected e, s1, fx) \<Rightarrow> (Rejected e, s1, fx)
                | (Forever, s1, fx) \<Rightarrow> (Forever, s1, fx)
                | (Fulfilled u, s1, fx) \<Rightarrow>
                    (case socket s1 of
                       None \<Rightarrow> (Rejected TypeError, s1, fx)
                     | Some sock \<Rightarrow>
                         (case encryptRaw machineEncryption params of
                            Rejected e \<Rightarrow> (Rejected e, s1, fx)
                          | Forever \<Rightarrow> (Forever, s1, fx)
                          | Fulfilled encrypted \<Rightarrow>
                              (let call = RpcCall (machineId @ '':'' @ method) encrypted;
                                   fx1 = fx @ [EmitWithAck ''rpc-call'' call]
                               in case serverAck env ''rpc-call'' call of
                                    Rejected e \<Rightarrow> (Rejected e, s1, fx1)
                                  | Forever \<Rightarrow> (Forever, s1, fx1)
                                  | Fulfilled res \<Rightarrow>
                                      if ok res then (decryptRaw machineEncryption (result res), s1, fx1)
                                      else (Rejected (Error ''RPC call failed''), s1, fx1)))))))"

subsection \<open>Sequences of transport operations\<close>

text \<open>
  The operations that touch the status or its listeners: \<open>connect()\<close>,
  \<open>disconnect()\<close>, the socket's events, a registration by \<open>onStatusChange\<close> and the
  removal by the function it returned. \<open>run_transports\<close> performs a series of them.
  \<open>heard l\<close> is what listener \<open>l\<close> is to be called with over the series: the current
  status at each registration of \<open>l\<close>, and the new status at each operation that changes
  the status. \<open>notified l\<close> picks from a list of effects the statuses that \<open>l\<close> was
  in fact called with.
\<close>

datatype transport_op =
    OpConnect
  | OpDisconnect
  | OpEvent socket_event
  | OpOnStatusChange listener
  | OpOffStatusChange listener

fun run_transport :: "transport_op \<Rightarrow> api_socket \<Rightarrow> api_socket \<times> effect list" where
  "run_transport OpConnect s = connect s"
| "run_transport OpDisconnect s = disconnect s"
| "run_transport (OpEvent ev) s = on_socket_event ev s"
| "run_transport (OpOnStatusChange k) s = onStatusChange k s"
| "run_transport (OpOffStatusChange k) s = (offStatusChange k s, [])"

fun run_transports :: "transport_op list \<Rightarrow> api_socket \<Rightarrow> api_socket \<times> effect list" where
  "run_transports [] s = (s, [])"
| "run_transports (op # ops) s =
     (case run_transport op s of
        (s1, fx) \<Rightarrow> (case run_transports ops s1 of (s2, fx2) \<Rightarrow> (s2, fx @ fx2)))"

fun heard_at :: "listener \<Rightarrow> transport_op \<Rightarrow> api_socket \<Rightarrow> connection_status list" where
  "heard_at l (OpOnStatusChange k) s = (if k = l then [currentStatus s] else [])"
| "heard_at l (OpOffStatusChange k) s = []"
| "heard_at l op s =
     (let s1 = fst (run_transport op s) in
      if currentStatus s1 \<noteq> currentStatus s then [currentStatus s1] else [])"

fun heard :: "listener \<Rightarrow> transport_op list \<Rightarrow> api_socket \<Rightarrow> connection_status list" where
  "heard l [] s = []"
| "heard l (op # ops) s = heard_at l op s @ heard l ops (fst (run_transport op s))"

fun notified :: "listener \<Rightarrow> effect list \<Rightarrow> connection_status list" where
  "notified l [] = []"
| "notified l (Notify k status # fx) = (if k = l then status # notified l fx else notified l fx)"
| "notified l (e # fx) = notified l fx"

section \<open>The resolution lock\<close>

text \<open>
  Every pass of \<open>resolveNow\<close> runs inside \<open>resolveLock.inLock\<close>. The state of the
  lock is the call whose pass is in flight, if any, and the calls that wait for it,
  oldest first. \<open>races\<close> logs the start and the end of every probe race, and \<open>served\<close>
  records for each call that waited the call whose pass it returned with.
\<close>

type_synonym caller = nat

datatype race_event = RaceStarted caller | RaceFinished caller

record resolve_lock =
  holder :: "caller option"
  waiters :: "caller list"
  races :: "race_event list"
  served :: "(caller \<times> caller) list"

definition lock_free :: resolve_lock where
  "lock_free = \<lparr>holder = None, waiters = [], races = [], served = []\<rparr>"

datatype lock_event = Arrive caller | PassEnds

text \<open>
  Modelled from the spec: the class \<open>AsyncLock\<close> of \<open>@/utils/lock\<close>, whose \<open>inLock\<close>
  wraps every pass of \<open>resolveNow\<close>, is not among the sources. The specification has
  \<open>resolve()\<close> run under a single mutual-exclusion lock so that concurrent callers
  coalesce into one resolution pass: at most one pass is in flight, and the others await
  its result rather than starting their own. So a call that arrives when no pass is in
  flight starts its pass, and with it the probe race; a call that arrives during a pass
  waits; and when the pass in flight ends, the calls that waited return with that pass
  and start none.
\<close>

fun lock_step :: "resolve_lock \<Rightarrow> lock_event \<Rightarrow> resolve_lock" where
  "lock_step s (Arrive c) =
     (case holder s of
        None \<Rightarrow> s\<lparr>holder := Some c, races := races s @ [RaceStarted c]\<rparr>
      | Some h \<Rightarrow> s\<lparr>waiters := waiters s @ [c]\<rparr>)"
| "lock_step s PassEnds =
     (case holder s of
        None \<Rightarrow> s
      | Some h \<Rightarrow>
          s\<lparr>holder := None, waiters := [], races := races s @ [RaceFinished h],
             served := served s @ map (\<lambda>c. (c, h)) (waiters s)\<rparr>)"

definition run_lock :: "lock_event list \<Rightarrow> resolve_lock" where
  "run_lock evs = foldl lock_step lock_free evs"

text \<open>
  The passes in flight after a log of race events, and the largest number of passes in
  flight at any point of a log.
\<close>

fun flight :: "caller list \<Rightarrow> race_event \<Rightarrow> caller list" where
  "flight fl (RaceStarted c) = fl @ [c]"
| "flight fl (RaceFinished c) = remove1 c fl"

fun peak :: "caller list \<Rightarrow> race_event list \<Rightarrow> nat" where
  "peak fl [] = length fl"
| "peak fl (e # es) = max (length fl) (peak (flight fl e) es)"

section \<open>Scenarios and auxiliary notions\<close>

subsection \<open>Auxiliary notions for the proofs\<close>

text \<open>A probe has failed when it is fulfilled with a falsy value (for \<open>probeUrl\<close>: \<open>null\<close>).\<close>

definition failed :: "(url \<Rightarrow> url option promise) \<Rightarrow> url \<Rightarrow> bool" where
  "failed probe u = (case probe u of Fulfilled v \<Rightarrow> \<not> truthy v | Rejected e \<Rightarrow> False | Forever \<Rightarrow> False)"

subsection \<open>A concrete network\<close>

text \<open>
  The scenario of the specification: one server answers with the welcome text, one
  never answers. Three more hosts: one answers with another page, one with an error
  status, and one with the welcome text but only when the timer has already fired.
\<close>

definition net0 :: "url \<Rightarrow> fetch_behaviour" where
  "net0 u =
     (if u = ''https://good.example'' then Responds 120 True (BodyText ''Welcome to Happy Server!'')
      else if u = ''https://bad.example'' then Silent
      else if u = ''https://other.example'' then Responds 80 True (BodyText ''<html>It works</html>'')
      else if u = ''https://down.example'' then Responds 40 False (BodyText ''Bad Gateway'')
      else if u = ''https://slow.example'' then Responds 3000 True (BodyText ''Welcome to Happy Server!'')
      else Fails 5)"

text \<open>A network on which both servers of the scenario answer with the welcome text.\<close>

definition net1 :: "url \<Rightarrow> fetch_behaviour" where
  "net1 u =
     (if u = ''https://good.example'' then Responds 900 True (BodyText ''Welcome to Happy Server!'')
      else if u = ''https://bad.example'' then Responds 15 True (BodyText ''Welcome to Happy Server!'')
      else Fails 5)"

text \<open>
  A server that sends an OK response in time and then never finishes the body.
\<close>

definition net_stall :: "url \<Rightarrow> fetch_behaviour" where
  "net_stall u =
     (if u = ''https://stall.example'' then Responds 200 True BodyStalls else Fails 5)"

definition cfg_stall :: server_config where
  "cfg_stall = \<lparr>getServerUrl = ''https://stall.example'', getManualLanUrl = None\<rparr>"

definition cfg0 :: server_config where
  "cfg0 = \<lparr>getServerUrl = ''https://good.example'', getManualLanUrl = Some ''https://bad.example''\<rparr>"

subsection \<open>A concrete transport\<close>

text \<open>
  Toy ciphers that prefix the payload with the peer's name, a registry that knows four
  sessions and one machine, a server that acknowledges every call with its own payload,
  and three socket states: configured but never connected, connected, and dropped.
\<close>

definition cipher_of :: "string \<Rightarrow> cipher" where
  "cipher_of k =
     \<lparr>encryptRaw = (\<lambda>p. Fulfilled (k @ ''|'' @ p)),
      decryptRaw = (\<lambda>p. if prefix (k @ ''|'') p then Fulfilled (drop (length k + 1) p)
                          else Rejected (Error ''Decryption failed''))\<rparr>"

definition enc0 :: encryption_registry where
  "enc0 =
     \<lparr>getSessionEncryption = (\<lambda>p. if p \<in> {''S1'', ''S2'', ''a'', ''a:b''} then Some (cipher_of p) else None),
      getMachineEncryption = (\<lambda>p. if p = ''M1'' then Some (cipher_of p) else None)\<rparr>"

definition echo_server :: "string \<Rightarrow> wire_data \<Rightarrow> ack promise" where
  "echo_server event data =
     (case data of
        RpcCall key p \<Rightarrow> Fulfilled \<lparr>ok = True, result = p\<rparr>
      | Raw p \<Rightarrow> Fulfilled \<lparr>ok = True, result = p\<rparr>)"

definition env0 :: transport_env where
  "env0 = \<lparr>connectsAfter = None, serverAck = echo_server\<rparr>"

definition api_connected :: api_socket where
  "api_connected =
     \<lparr>socket = Some \<lparr>sock_connected = True, sock_recovered = False, connectOnce = 0\<rparr>,
      config = Some \<lparr>endpoint = ''https://good.example'', token = ''t0''\<rparr>,
      encryption = Some enc0, reconnectedListeners = [], statusListeners = [7],
      currentStatus = connected, networkSubscription = True\<rparr>"

definition api_dropped :: api_socket where
  "api_dropped =
     api_connected\<lparr>socket := Some \<lparr>sock_connected = False, sock_recovered = False, connectOnce = 0\<rparr>,
                   currentStatus := disconnected\<rparr>"

definition api_configured :: api_socket where
  "api_configured = new_ApiSocket\<lparr>config := Some \<lparr>endpoint = ''https://good.example'', token = ''t0''\<rparr>\<rparr>"

subsection \<open>Invariant of the lock\<close>

definition lock_inv :: "resolve_lock \<Rightarrow> bool" where
  "lock_inv s \<longleftrightarrow>
     peak [] (races s) \<le> 1
     \<and> foldl flight [] (races s) = (case holder s of None \<Rightarrow> [] | Some h \<Rightarrow> [h])
     \<and> (holder s = None \<longrightarrow> waiters s = [])"

section \<open>Properties of the resolver\<close>

subsection \<open>The probe\<close>

lemma includes_iff: "str_includes str s \<longleftrightarrow> (\<exists>a b. str = a @ s @ b)"
proof (induction str)
  case Nil
  then show ?case by auto
next
  case (Cons c cs)
  show ?case
  proof
    assume "str_includes (c # cs) s"
    then consider "prefix s (c # cs)" | "str_includes cs s" by auto
    then show "\<exists>a b. c # cs = a @ s @ b"
    proof cases
      case 1
      then obtain b where "c # cs = s @ b" by (auto simp: prefix_def)
      then have "c # cs = [] @ s @ b" by simp
      then show ?thesis by blast
    next
      case 2
      with Cons obtain a b where "cs = a @ s @ b" by blast
      then have "c # cs = (c # a) @ s @ b" by simp
      then show ?thesis by blast
    qed
  next
    assume "\<exists>a b. c # cs = a @ s @ b"
    then obtain a b where ab: "c # cs = a @ s @ b" by blast
    show "str_includes (c # cs) s"
    proof (cases a)
      case Nil
      with ab have "prefix s (c # cs)" by (simp add: prefix_def)
      then show ?thesis by simp
    next
      case (Cons a0 as)
      with ab have "cs = as @ s @ b" by simp
      with Cons.IH have "str_includes cs s" by blast
      then show ?thesis by simp
    qed
  qed
qed

lemma probeUrl_never_rejects: "probeUrl net u timeoutMs \<noteq> Rejected e"
  by (simp add: probeUrl_def split: promise.splits)

lemma probeUrl_success_iff:
  "probeUrl net u timeoutMs = Fulfilled (Some v) \<longleftrightarrow>
     v = u \<and> (\<exists>t str. net u = Responds t True (BodyText str) \<and> t < timeoutMs \<and> str_includes str marker)"
  by (auto simp: probeUrl_def probeUrl_try_def split: fetch_behaviour.splits body_read.splits if_splits)

lemma probeUrl_failure_iff:
  "probeUrl net u timeoutMs = Fulfilled None \<longleftrightarrow>
     net u = Silent \<or> (\<exists>t. net u = Fails t)
     \<or> (\<exists>t ok b. net u = Responds t ok b \<and> timeoutMs \<le> t)
     \<or> (\<exists>t b. net u = Responds t False b)
     \<or> (\<exists>t. net u = Responds t True BodyFails)
     \<or> (\<exists>t str. net u = Responds t True (BodyText str) \<and> \<not> str_includes str marker)"
  by (auto simp: probeUrl_def probeUrl_try_def split: fetch_behaviour.splits body_read.splits if_splits)

lemma probeUrl_forever_iff:
  "probeUrl net u timeoutMs = Forever \<longleftrightarrow> (\<exists>t. net u = Responds t True BodyStalls \<and> t < timeoutMs)"
  by (auto simp: probeUrl_def probeUrl_try_def split: fetch_behaviour.splits body_read.splits if_splits)

text \<open>The outcome of a probe with the default timeout, for every behaviour of the network.\<close>

lemma probeUrl_default_outcomes:
  "probeUrl_default net u =
     (case net u of
        Silent \<Rightarrow> Fulfilled None
      | Fails t \<Rightarrow> Fulfilled None
      | Responds t status_ok body \<Rightarrow>
          if 3000 \<le> t \<or> \<not> status_ok then Fulfilled None
          else (case body of
                  BodyText str \<Rightarrow>
                    if str_includes str marker then Fulfilled (Some u) else Fulfilled None
                | BodyFails \<Rightarrow> Fulfilled None
                | BodyStalls \<Rightarrow> Forever))"
  by (simp add: probeUrl_default_def probeUrl_def probeUrl_try_def
           split: fetch_behaviour.splits body_read.splits)

text \<open>
  On the concrete network: the welcome text in time is a success; an error status, no
  answer, an answer only when the timer has fired, a failed request and another page
  are failures.
\<close>

lemma probeUrl_default_examples:
  "probeUrl_default net0 ''https://good.example'' = Fulfilled (Some ''https://good.example'')"
  "probeUrl_default net0 ''https://down.example'' = Fulfilled None"
  "probeUrl_default net0 ''https://bad.example'' = Fulfilled None"
  "probeUrl_default net0 ''https://slow.example'' = Fulfilled None"
  "probeUrl_default net0 ''https://nowhere.example'' = Fulfilled None"
  "probeUrl_default net0 ''https://other.example'' = Fulfilled None"
  by (simp_all add: probeUrl_default_outcomes net0_def marker_def)

text \<open>
  Claim C7. The claim has every outcome other than an OK response with the marker yield
  \<open>null\<close>, with the timeout enforced per probe after 3 seconds. The code clears the
  timer as soon as \<open>fetch\<close> resolves and only then reads the body. For a server that
  sends an OK response after 200 ms and never finishes the body, the probe is therefore
  never settled: it yields neither the URL nor \<open>null\<close>. With that server as the only
  candidate, the resolution pass never completes either.
\<close>

theorem probeUrl_stalled_body_never_settles:
  "net_stall ''https://stall.example'' = Responds 200 True BodyStalls
   \<and> probeUrl_default net_stall ''https://stall.example'' = Forever
   \<and> probeUrl_default net_stall ''https://stall.example'' \<noteq> Fulfilled None
   \<and> probeUrl_default net_stall ''https://stall.example'' \<noteq> Fulfilled (Some ''https://stall.example'')
   \<and> candidates_of cfg_stall = [''https://stall.example'']
   \<and> resolveNow cfg_stall net_stall [] (initial_resolver None) = (Forever, initial_resolver None)"
proof -
  have p: "probeUrl_default net_stall ''https://stall.example'' = Forever"
    by (simp add: probeUrl_default_def probeUrl_def probeUrl_try_def net_stall_def)
  have c: "candidates_of cfg_stall = [''https://stall.example'']"
    by (simp add: cfg_stall_def candidates_of_def)
  have r: "resolveNow cfg_stall net_stall [] (initial_resolver None) = (Forever, initial_resolver None)"
    by (simp add: resolveNow_def raceProbes_def c p)
  have n: "net_stall ''https://stall.example'' = Responds 200 True BodyStalls"
    by (simp add: net_stall_def)
  from n p c r show ?thesis by simp
qed

subsection \<open>The race and one resolution pass\<close>

lemma race_settled_stays: "settled r \<Longrightarrow> foldl (race_settle probe) r xs = r"
  by (induction xs) (auto simp: race_settle_def race_then_def split: promise.splits)

lemma race_success:
  "\<not> settled r \<Longrightarrow> find (succeeded probe) xs = Some w
   \<Longrightarrow> int (length (filter (failed probe) xs)) < pending r
   \<Longrightarrow> \<exists>v. probe w = Fulfilled v \<and> resolved (foldl (race_settle probe) r xs) = Some v"
proof (induction xs arbitrary: r)
  case Nil
  then show ?case by simp
next
  case (Cons x xs)
  show ?case
  proof (cases "probe x")
    case (Fulfilled v)
    show ?thesis
    proof (cases "truthy v")
      case True
      with Fulfilled Cons.prems have wx: "w = x" by (simp add: succeeded_def)
      have "settled (race_settle probe r x)" "resolved (race_settle probe r x) = Some v"
        using Fulfilled True Cons.prems(1) by (simp_all add: race_settle_def race_then_def)
      then show ?thesis using wx Fulfilled by (simp add: race_settled_stays)
    next
      case False
      with Fulfilled have fx: "failed probe x" "\<not> succeeded probe x" by (simp_all add: failed_def succeeded_def)
      with Cons.prems have p: "1 + int (length (filter (failed probe) xs)) < pending r" by simp
      have r1: "race_settle probe r x = r\<lparr>pending := pending r - 1\<rparr>"
        using Fulfilled False Cons.prems(1) p by (simp add: race_settle_def race_then_def Let_def)
      have "\<exists>v. probe w = Fulfilled v \<and> resolved (foldl (race_settle probe) (r\<lparr>pending := pending r - 1\<rparr>) xs) = Some v"
        using Cons.prems fx p by (intro Cons.IH) simp_all
      then show ?thesis using r1 by simp
    qed
  next
    case (Rejected e)
    then have "race_settle probe r x = r" "\<not> succeeded probe x" "\<not> failed probe x"
      by (simp_all add: race_settle_def succeeded_def failed_def)
    then show ?thesis using Cons by simp
  next
    case Forever
    then have "race_settle probe r x = r" "\<not> succeeded probe x" "\<not> failed probe x"
      by (simp_all add: race_settle_def succeeded_def failed_def)
    then show ?thesis using Cons by simp
  qed
qed

lemma race_no_success:
  "\<not> settled r \<Longrightarrow> resolved r = None \<Longrightarrow> find (succeeded probe) xs = None \<Longrightarrow> 0 < pending r
   \<Longrightarrow> resolved (foldl (race_settle probe) r xs) =
        (if pending r \<le> int (length (filter (failed probe) xs)) then Some None else None)"
proof (induction xs arbitrary: r)
  case Nil
  then show ?case by simp
next
  case (Cons x xs)
  show ?case
  proof (cases "probe x")
    case (Fulfilled v)
    with Cons.prems have nt: "\<not> truthy v" by (auto simp: succeeded_def split: if_splits)
    with Fulfilled have fx: "failed probe x" by (simp add: failed_def)
    show ?thesis
    proof (cases "pending r = 1")
      case True
      have "settled (race_settle probe r x)" "resolved (race_settle probe r x) = Some None"
        using Fulfilled nt True Cons.prems(1) by (simp_all add: race_settle_def race_then_def Let_def)
      then show ?thesis using fx True by (simp add: race_settled_stays)
    next
      case False
      have r1: "race_settle probe r x = r\<lparr>pending := pending r - 1\<rparr>"
        using Fulfilled nt False Cons.prems(1) by (simp add: race_settle_def race_then_def Let_def)
      have "resolved (foldl (race_settle probe) (r\<lparr>pending := pending r - 1\<rparr>) xs) =
             (if pending (r\<lparr>pending := pending r - 1\<rparr>) \<le> int (length (filter (failed probe) xs)) then Some None else None)"
        using Cons.prems False by (intro Cons.IH) (auto split: if_splits)
      then show ?thesis using r1 fx by auto
    qed
  next
    case (Rejected e)
    then have "race_settle probe r x = r" "\<not> failed probe x"
      by (simp_all add: race_settle_def failed_def)
    then show ?thesis using Cons by (auto split: if_splits)
  next
    case Forever
    then have "race_settle probe r x = r" "\<not> failed probe x"
      by (simp_all add: race_settle_def failed_def)
    then show ?thesis using Cons by (auto split: if_splits)
  qed
qed

lemma failed_count_order:
  assumes "distinct cands" "completion_order probe cands sched"
  shows "length (filter (failed probe) sched) = length (filter (failed probe) cands)"
proof -
  have d1: "distinct (filter (failed probe) sched)" "distinct (filter (failed probe) cands)"
    using assms by (simp_all add: completion_order_def)
  have "set (filter (failed probe) sched) = set (filter (failed probe) cands)"
    using assms(2) by (auto simp: completion_order_def failed_def split: promise.splits)
  then have "card (set (filter (failed probe) sched)) = card (set (filter (failed probe) cands))"
    by simp
  then show ?thesis using d1 by (simp only: distinct_card)
qed

lemma all_failed_count: "length (filter P xs) = length xs \<longleftrightarrow> (\<forall>x\<in>set xs. P x)"
proof
  assume "length (filter P xs) = length xs"
  then show "\<forall>x\<in>set xs. P x"
    using length_filter_less[of _ xs P] by fastforce
next
  assume "\<forall>x\<in>set xs. P x"
  then show "length (filter P xs) = length xs" by simp
qed

lemma raceProbes_many:
  assumes len: "2 \<le> length cands" and dist: "distinct cands"
      and ord: "completion_order probe cands sched"
  shows "case find (succeeded probe) sched of
           Some w \<Rightarrow> raceProbes probe cands sched = probe w
         | None \<Rightarrow> raceProbes probe cands sched =
                     (if \<forall>u\<in>set cands. failed probe u then Fulfilled None else Forever)"
proof (cases "find (succeeded probe) sched")
  case None
  let ?r0 = "\<lparr>settled = False, pending = int (length cands), resolved = None\<rparr>"
  have "resolved (foldl (race_settle probe) ?r0 sched) =
          (if pending ?r0 \<le> int (length (filter (failed probe) sched)) then Some None else None)"
    using None len by (intro race_no_success) auto
  moreover have "int (length cands) \<le> int (length (filter (failed probe) cands)) \<longleftrightarrow> (\<forall>u\<in>set cands. failed probe u)"
  proof -
    have "length (filter (failed probe) cands) \<le> length cands" by (rule length_filter_le)
    then have "int (length cands) \<le> int (length (filter (failed probe) cands))
                 \<longleftrightarrow> length (filter (failed probe) cands) = length cands" by linarith
    then show ?thesis by (simp only: all_failed_count)
  qed
  moreover have "cands \<noteq> []" "length cands \<noteq> Suc 0" using len by auto
  ultimately show ?thesis using None failed_count_order[OF dist ord]
    by (simp add: raceProbes_def)
next
  case (Some w)
  let ?r0 = "\<lparr>settled = False, pending = int (length cands), resolved = None\<rparr>"
  from Some have w: "w \<in> set sched" "succeeded probe w"
    by (auto simp: find_Some_iff)
  then have "w \<in> set cands" "\<not> failed probe w"
    using ord by (auto simp: completion_order_def succeeded_def failed_def split: promise.splits)
  then have "length (filter (failed probe) cands) < length cands"
    by (meson length_filter_less)
  then have "int (length (filter (failed probe) sched)) < pending ?r0"
    using failed_count_order[OF dist ord] by simp
  then have "\<exists>v. probe w = Fulfilled v \<and> resolved (foldl (race_settle probe) ?r0 sched) = Some v"
    using Some by (intro race_success) simp_all
  moreover have "cands \<noteq> []" "length cands \<noteq> Suc 0" using len by auto
  ultimately show ?thesis using Some by (auto simp: raceProbes_def)
qed

lemma candidates_of_cases:
  "candidates_of cfg = [getServerUrl cfg] \<or>
   (\<exists>lan. getManualLanUrl cfg = Some lan \<and> lan \<noteq> [] \<and> lan \<noteq> getServerUrl cfg
          \<and> candidates_of cfg = [getServerUrl cfg, lan])"
  by (auto simp: candidates_of_def Let_def split: option.splits)

lemma candidates_of_distinct: "distinct (candidates_of cfg)"
  using candidates_of_cases[of cfg] by auto

lemma candidates_of_nonempty:
  "getServerUrl cfg \<noteq> [] \<Longrightarrow> u \<in> set (candidates_of cfg) \<Longrightarrow> u \<noteq> []"
  using candidates_of_cases[of cfg] by auto

lemma probeUrl_value: "probeUrl net u timeoutMs = Fulfilled x \<Longrightarrow> x = None \<or> x = Some u"
  by (cases x) (simp_all add: probeUrl_success_iff)

lemma succeeded_probeUrl:
  "succeeded (probeUrl_default net) u \<longleftrightarrow> probeUrl_default net u = Fulfilled (Some u) \<and> u \<noteq> []"
proof (cases "probeUrl net u 3000")
  case (Fulfilled x)
  with probeUrl_value[OF this] show ?thesis
    by (auto simp: succeeded_def probeUrl_default_def)
qed (simp_all add: succeeded_def probeUrl_default_def)

lemma find_succeeded_in_order:
  assumes "completion_order probe cands sched"
  shows "find (succeeded probe) sched = None \<longleftrightarrow> (\<forall>u\<in>set cands. \<not> succeeded probe u)"
  using assms
  by (auto simp: find_None_iff completion_order_def succeeded_def split: promise.splits)

lemma raceProbes_resolver:
  assumes ne: "getServerUrl cfg \<noteq> []"
      and ord: "completion_order (probeUrl_default net) (candidates_of cfg) sched"
  shows "case find (succeeded (probeUrl_default net)) sched of
           Some w \<Rightarrow> raceProbes (probeUrl_default net) (candidates_of cfg) sched = Fulfilled (Some w)
         | None \<Rightarrow> raceProbes (probeUrl_default net) (candidates_of cfg) sched \<in> {Fulfilled None, Forever}"
proof -
  let ?P = "probeUrl_default net"
  from candidates_of_cases[of cfg] show ?thesis
  proof
    assume one: "candidates_of cfg = [getServerUrl cfg]"
    then have r: "raceProbes ?P (candidates_of cfg) sched = ?P (getServerUrl cfg)"
      by (simp add: raceProbes_def)
    show ?thesis
    proof (cases "find (succeeded ?P) sched")
      case None
      then have "\<not> succeeded ?P (getServerUrl cfg)"
        using find_succeeded_in_order[OF ord] one by simp
      then have "?P (getServerUrl cfg) \<in> {Fulfilled None, Forever}"
        using ne by (cases "?P (getServerUrl cfg)")
          (auto simp: succeeded_probeUrl probeUrl_default_def probeUrl_never_rejects dest: probeUrl_value)
      then show ?thesis using None r by simp
    next
      case (Some w)
      then have "w \<in> set sched" "succeeded ?P w" by (auto simp: find_Some_iff)
      then have "w = getServerUrl cfg" "?P w = Fulfilled (Some w)"
        using ord one by (auto simp: completion_order_def succeeded_probeUrl split: if_splits)
      then show ?thesis using Some r by simp
    qed
  next
    assume "\<exists>lan. getManualLanUrl cfg = Some lan \<and> lan \<noteq> [] \<and> lan \<noteq> getServerUrl cfg
          \<and> candidates_of cfg = [getServerUrl cfg, lan]"
    then have len: "2 \<le> length (candidates_of cfg)" by auto
    note many = raceProbes_many[OF len candidates_of_distinct ord]
    show ?thesis
    proof (cases "find (succeeded ?P) sched")
      case None
      then show ?thesis using many by simp
    next
      case (Some w)
      then have "succeeded ?P w" by (auto simp: find_Some_iff)
      then have "?P w = Fulfilled (Some w)" by (simp add: succeeded_probeUrl)
      then show ?thesis using Some many by simp
    qed
  qed
qed

text \<open>
  Claim C1. Let the primary URL be non-empty and let \<open>sched\<close> be any order in which the
  probes of the candidates settle. If some probe succeeds, the pass completes and sets
  both the cached and the stored Active URL to the first candidate in that order whose
  probe succeeded: probes that failed earlier do not end the race. If no probe succeeds,
  the pass leaves the state as it found it. Some probe succeeds exactly when a candidate's
  probe is fulfilled with its URL; and when exactly one candidate's probe is, that
  candidate becomes the Active URL whatever the order.
\<close>

theorem resolveNow_first_success_wins:
  assumes ne: "getServerUrl cfg \<noteq> []"
      and ord: "completion_order (probeUrl_default net) (candidates_of cfg) sched"
  shows "(case find (succeeded (probeUrl_default net)) sched of
            Some w \<Rightarrow> resolveNow cfg net sched st =
                        (Fulfilled (), st\<lparr>activeUrl := Some w, storedActiveUrl := Some w\<rparr>)
          | None \<Rightarrow> snd (resolveNow cfg net sched st) = st)
       \<and> (find (succeeded (probeUrl_default net)) sched = None \<longleftrightarrow>
            (\<forall>u\<in>set (candidates_of cfg). probeUrl_default net u \<noteq> Fulfilled (Some u)))
       \<and> (\<forall>u\<in>set (candidates_of cfg).
             probeUrl_default net u = Fulfilled (Some u) \<and>
             (\<forall>v\<in>set (candidates_of cfg). v \<noteq> u \<longrightarrow> probeUrl_default net v \<noteq> Fulfilled (Some v))
             \<longrightarrow> resolveNow cfg net sched st =
                   (Fulfilled (), st\<lparr>activeUrl := Some u, storedActiveUrl := Some u\<rparr>))"
proof -
  let ?P = "probeUrl_default net"
  note race = raceProbes_resolver[OF ne ord]
  have sc: "\<And>u. u \<in> set (candidates_of cfg) \<Longrightarrow> succeeded ?P u \<longleftrightarrow> ?P u = Fulfilled (Some u)"
    using candidates_of_nonempty[OF ne] by (simp add: succeeded_probeUrl)
  have first: "\<And>w. find (succeeded ?P) sched = Some w \<Longrightarrow>
      resolveNow cfg net sched st = (Fulfilled (), st\<lparr>activeUrl := Some w, storedActiveUrl := Some w\<rparr>)"
  proof -
    fix w assume f: "find (succeeded ?P) sched = Some w"
    then have "succeeded ?P w" by (auto simp: find_Some_iff)
    then have "w \<noteq> []" by (simp add: succeeded_probeUrl)
    moreover have "raceProbes ?P (candidates_of cfg) sched = Fulfilled (Some w)"
      using race f by simp
    ultimately show "resolveNow cfg net sched st = (Fulfilled (), st\<lparr>activeUrl := Some w, storedActiveUrl := Some w\<rparr>)"
      by (simp add: resolveNow_def)
  qed
  have none: "find (succeeded ?P) sched = None \<Longrightarrow> snd (resolveNow cfg net sched st) = st"
  proof -
    assume "find (succeeded ?P) sched = None"
    then have "raceProbes ?P (candidates_of cfg) sched \<in> {Fulfilled None, Forever}"
      using race by simp
    then show ?thesis by (auto simp: resolveNow_def)
  qed
  have c1: "case find (succeeded ?P) sched of
            Some w \<Rightarrow> resolveNow cfg net sched st =
                        (Fulfilled (), st\<lparr>activeUrl := Some w, storedActiveUrl := Some w\<rparr>)
          | None \<Rightarrow> snd (resolveNow cfg net sched st) = st"
    using first none by (cases "find (succeeded ?P) sched") simp_all
  have c2: "find (succeeded ?P) sched = None \<longleftrightarrow>
            (\<forall>u\<in>set (candidates_of cfg). ?P u \<noteq> Fulfilled (Some u))"
    using find_succeeded_in_order[OF ord] sc by simp
  have c3: "\<forall>u\<in>set (candidates_of cfg).
             ?P u = Fulfilled (Some u) \<and>
             (\<forall>v\<in>set (candidates_of cfg). v \<noteq> u \<longrightarrow> ?P v \<noteq> Fulfilled (Some v))
             \<longrightarrow> resolveNow cfg net sched st =
                   (Fulfilled (), st\<lparr>activeUrl := Some u, storedActiveUrl := Some u\<rparr>)"
  proof (intro ballI impI)
    fix u assume u: "u \<in> set (candidates_of cfg)"
      and h: "?P u = Fulfilled (Some u) \<and>
             (\<forall>v\<in>set (candidates_of cfg). v \<noteq> u \<longrightarrow> ?P v \<noteq> Fulfilled (Some v))"
    from u h c2 obtain w where w: "find (succeeded ?P) sched = Some w" by (cases "find (succeeded ?P) sched") auto
    then have "w \<in> set sched" "succeeded ?P w" by (auto simp: find_Some_iff)
    then have "w \<in> set (candidates_of cfg)" "?P w = Fulfilled (Some w)"
      using ord by (auto simp: completion_order_def succeeded_probeUrl split: if_splits)
    with h have "w = u" by blast
    with first[OF w] show "resolveNow cfg net sched st =
                   (Fulfilled (), st\<lparr>activeUrl := Some u, storedActiveUrl := Some u\<rparr>)" by simp
  qed
  from c1 c2 c3 show ?thesis by blast
qed

theorem resolveNow_first_success_wins_witness:
  "getServerUrl cfg0 \<noteq> []
   \<and> completion_order (probeUrl_default net0) (candidates_of cfg0)
         [''https://bad.example'', ''https://good.example'']
   \<and> resolveNow cfg0 net0 [''https://bad.example'', ''https://good.example''] (initial_resolver None) =
       (Fulfilled (),
        \<lparr>activeUrl = Some ''https://good.example'', storedActiveUrl = Some ''https://good.example'',
         lastFailureNotification = 0\<rparr>)"
proof -
  have ne: "getServerUrl cfg0 \<noteq> []" by (simp add: cfg0_def)
  have pg: "probeUrl_default net0 ''https://good.example'' = Fulfilled (Some ''https://good.example'')"
    by (simp add: probeUrl_default_def probeUrl_def probeUrl_try_def net0_def marker_def)
  have pb: "probeUrl_default net0 ''https://bad.example'' = Fulfilled None"
    by (simp add: probeUrl_default_def probeUrl_def probeUrl_try_def net0_def)
  have cs: "candidates_of cfg0 = [''https://good.example'', ''https://bad.example'']"
    by (simp add: cfg0_def candidates_of_def)
  have ord: "completion_order (probeUrl_default net0) (candidates_of cfg0)
               [''https://bad.example'', ''https://good.example'']"
    by (simp add: completion_order_def cs pg pb insert_commute)
  have f: "find (succeeded (probeUrl_default net0)) [''https://bad.example'', ''https://good.example'']
             = Some ''https://good.example''"
    by (simp add: succeeded_def pg pb)
  from resolveNow_first_success_wins[OF ne ord, of "initial_resolver None"] f
  have "resolveNow cfg0 net0 [''https://bad.example'', ''https://good.example''] (initial_resolver None) =
          (Fulfilled (), (initial_resolver None)\<lparr>activeUrl := Some ''https://good.example'',
                                                  storedActiveUrl := Some ''https://good.example''\<rparr>)"
    by simp
  then show ?thesis using ne ord by (simp add: initial_resolver_def)
qed

text \<open>
  When both candidates answer, the one whose probe settles first becomes the Active URL,
  also when it is the second of the list.
\<close>

lemma resolveNow_earlier_success_example:
  "resolveNow cfg0 net1 [''https://bad.example'', ''https://good.example''] (initial_resolver None) =
     (Fulfilled (),
      \<lparr>activeUrl = Some ''https://bad.example'', storedActiveUrl = Some ''https://bad.example'',
       lastFailureNotification = 0\<rparr>)"
proof -
  have pg: "probeUrl_default net1 ''https://good.example'' = Fulfilled (Some ''https://good.example'')"
    by (simp add: probeUrl_default_def probeUrl_def probeUrl_try_def net1_def marker_def)
  have pb: "probeUrl_default net1 ''https://bad.example'' = Fulfilled (Some ''https://bad.example'')"
    by (simp add: probeUrl_default_def probeUrl_def probeUrl_try_def net1_def marker_def)
  have cs: "candidates_of cfg0 = [''https://good.example'', ''https://bad.example'']"
    by (simp add: cfg0_def candidates_of_def)
  show ?thesis
    by (simp add: resolveNow_def raceProbes_def cs pg pb race_settle_def race_then_def
                  initial_resolver_def)
qed

subsection \<open>Reading the Active URL\<close>

text \<open>
  Claim C4. \<open>getResolvedServerUrl\<close> is a total function that returns a URL at once (it
  has no promise and no error among its results). With a non-empty Active URL cached it
  returns that URL, leaves the state as it is and starts nothing. With none cached (the
  variable is \<open>null\<close> or the empty string) it returns the primary URL, records it as the
  cached Active URL, leaves the stored record alone, and starts a \<open>resolveNow()\<close> in
  the background.
\<close>

theorem getResolvedServerUrl_cached_or_primary:
  "(\<forall>a. activeUrl st = Some a \<and> a \<noteq> [] \<longrightarrow> getResolvedServerUrl cfg st = (a, st, False))
   \<and> (activeUrl st = None \<or> activeUrl st = Some [] \<longrightarrow>
        getResolvedServerUrl cfg st =
          (getServerUrl cfg, st\<lparr>activeUrl := Some (getServerUrl cfg)\<rparr>, True))"
  by (auto simp: getResolvedServerUrl_def Let_def)

theorem getResolvedServerUrl_cached_or_primary_witness:
  "getResolvedServerUrl cfg0 (initial_resolver None) =
     (''https://good.example'',
      \<lparr>activeUrl = Some ''https://good.example'', storedActiveUrl = None, lastFailureNotification = 0\<rparr>,
      True)
   \<and> getResolvedServerUrl cfg0 (initial_resolver (Some ''https://bad.example'')) =
     (''https://bad.example'', initial_resolver (Some ''https://bad.example''), False)"
proof -
  have cold: "activeUrl (initial_resolver None) = None \<or> activeUrl (initial_resolver None) = Some []"
    by (simp add: initial_resolver_def)
  have warm: "activeUrl (initial_resolver (Some ''https://bad.example'')) = Some ''https://bad.example''
              \<and> ''https://bad.example'' \<noteq> []"
    by (simp add: initial_resolver_def)
  from cold getResolvedServerUrl_cached_or_primary[of "initial_resolver None" cfg0]
  have 1: "getResolvedServerUrl cfg0 (initial_resolver None) =
          (getServerUrl cfg0, (initial_resolver None)\<lparr>activeUrl := Some (getServerUrl cfg0)\<rparr>, True)"
    by blast
  from warm getResolvedServerUrl_cached_or_primary[of "initial_resolver (Some ''https://bad.example'')" cfg0]
  have 2: "getResolvedServerUrl cfg0 (initial_resolver (Some ''https://bad.example'')) =
     (''https://bad.example'', initial_resolver (Some ''https://bad.example''), False)"
    by blast
  from 1 2 show ?thesis by (simp add: cfg0_def initial_resolver_def)
qed

subsection \<open>Debounced failure notifications\<close>

lemma notify_all_quiet:
  "\<forall>x\<in>set ts. x - lastFailureNotification st < FAILURE_DEBOUNCE_MS \<Longrightarrow> notify_all ts st = (st, 0)"
  by (induction ts) (auto simp: notifyConnectionFailed_def)

lemma notify_all_burst:
  "\<forall>x\<in>set ts. \<forall>y\<in>set ts. y - x < FAILURE_DEBOUNCE_MS \<Longrightarrow> snd (notify_all ts st) \<le> 1"
proof (induction ts arbitrary: st)
  case Nil
  then show ?case by simp
next
  case (Cons now rest)
  show ?case
  proof (cases "now - lastFailureNotification st < FAILURE_DEBOUNCE_MS")
    case True
    then have "notifyConnectionFailed now st = (st, False)" by (simp add: notifyConnectionFailed_def)
    moreover have "snd (notify_all rest st) \<le> 1" using Cons by simp
    ultimately show ?thesis by (simp split: prod.splits)
  next
    case False
    then have a: "notifyConnectionFailed now st = (st\<lparr>lastFailureNotification := now\<rparr>, True)"
      by (simp add: notifyConnectionFailed_def)
    have "\<forall>x\<in>set rest. x - lastFailureNotification (st\<lparr>lastFailureNotification := now\<rparr>) < FAILURE_DEBOUNCE_MS"
      using Cons.prems by simp
    then have "notify_all rest (st\<lparr>lastFailureNotification := now\<rparr>) = (st\<lparr>lastFailureNotification := now\<rparr>, 0)"
      by (rule notify_all_quiet)
    with a show ?thesis by simp
  qed
qed

text \<open>
  Claim C5. A \<open>notifyConnectionFailed\<close> call less than 10000 ms after the last accepted
  one changes nothing and starts no pass; a call at or after that records its own time
  and starts a pass. Hence of two calls less than 10000 ms apart at most one starts a
  pass, and a series of calls that all lie within 10000 ms of each other starts at most
  one pass.
\<close>

theorem notifyConnectionFailed_debounce:
  "(now - lastFailureNotification st < 10000 \<longrightarrow> notifyConnectionFailed now st = (st, False))
   \<and> (10000 \<le> now - lastFailureNotification st \<longrightarrow>
        notifyConnectionFailed now st = (st\<lparr>lastFailureNotification := now\<rparr>, True))
   \<and> (\<forall>t1 t2. t2 - t1 < 10000 \<longrightarrow>
        \<not> (snd (notifyConnectionFailed t1 st) \<and> snd (notifyConnectionFailed t2 (fst (notifyConnectionFailed t1 st)))))
   \<and> (\<forall>ts. (\<forall>x\<in>set ts. \<forall>y\<in>set ts. y - x < 10000) \<longrightarrow> snd (notify_all ts st) \<le> 1)"
proof -
  have "\<And>ts. (\<forall>x\<in>set ts. \<forall>y\<in>set ts. y - x < 10000) \<Longrightarrow> snd (notify_all ts st) \<le> 1"
    using notify_all_burst[of _ st] by (simp add: FAILURE_DEBOUNCE_MS_def)
  then show ?thesis
    by (auto simp: notifyConnectionFailed_def FAILURE_DEBOUNCE_MS_def)
qed

theorem notifyConnectionFailed_debounce_witness:
  "notifyConnectionFailed 20000 (initial_resolver None) =
     ((initial_resolver None)\<lparr>lastFailureNotification := 20000\<rparr>, True)
   \<and> notifyConnectionFailed 25000 ((initial_resolver None)\<lparr>lastFailureNotification := 20000\<rparr>) =
     ((initial_resolver None)\<lparr>lastFailureNotification := 20000\<rparr>, False)
   \<and> snd (notify_all [20000, 25000, 29999] (initial_resolver None)) \<le> 1"
proof -
  let ?st = "initial_resolver None"
  let ?st1 = "?st\<lparr>lastFailureNotification := 20000\<rparr>"
  have a: "10000 \<le> 20000 - lastFailureNotification ?st" by (simp add: initial_resolver_def)
  have b: "25000 - lastFailureNotification ?st1 < 10000" by simp
  have c: "\<forall>x\<in>set [20000, 25000, 29999::int]. \<forall>y\<in>set [20000, 25000, 29999]. y - x < 10000" by simp
  from notifyConnectionFailed_debounce[of 20000 ?st, THEN conjunct2, THEN conjunct1, rule_format, OF a]
  have 1: "notifyConnectionFailed 20000 ?st = (?st1, True)" .
  from notifyConnectionFailed_debounce[of 25000 ?st1, THEN conjunct1, rule_format, OF b]
  have 2: "notifyConnectionFailed 25000 ?st1 = (?st1, False)" .
  from notifyConnectionFailed_debounce[of 0 ?st, THEN conjunct2, THEN conjunct2, THEN conjunct2,
         THEN spec, of "[20000, 25000, 29999]"] c
  have 3: "snd (notify_all [20000, 25000, 29999] ?st) \<le> 1" by (rule mp)
  from 1 2 3 show ?thesis by blast
qed

subsection \<open>Who writes the Active URL\<close>

lemma race_resolved_origin:
  "resolved r = None \<Longrightarrow> resolved (foldl (race_settle probe) r xs) = Some (Some w)
   \<Longrightarrow> \<exists>u\<in>set xs. probe u = Fulfilled (Some w) \<and> truthy (Some w)"
proof (induction xs arbitrary: r)
  case Nil
  then show ?case by simp
next
  case (Cons x xs)
  show ?case
  proof (cases "resolved (race_settle probe r x)")
    case None
    with Cons.IH[of "race_settle probe r x"] Cons.prems show ?thesis by auto
  next
    case (Some v)
    with Cons.prems(1) have st: "settled (race_settle probe r x)"
      by (auto simp: race_settle_def race_then_def Let_def split: promise.splits if_splits)
    then have "foldl (race_settle probe) (race_settle probe r x) xs = race_settle probe r x"
      by (rule race_settled_stays)
    with Cons.prems(2) Some have v: "v = Some w" by simp
    with Some Cons.prems(1) have "probe x = Fulfilled (Some w) \<and> truthy (Some w)"
      by (auto simp: race_settle_def race_then_def Let_def split: promise.splits if_splits)
    then show ?thesis by auto
  qed
qed

lemma raceProbes_winner_origin:
  assumes "raceProbes probe cands sched = Fulfilled (Some w)" "truthy (Some w)"
  shows "\<exists>u\<in>set cands \<union> set sched. probe u = Fulfilled (Some w)"
proof (cases "length cands = 1")
  case True
  then obtain c where "cands = [c]" by (cases cands) auto
  with assms show ?thesis by (auto simp: raceProbes_def)
next
  case False
  with assms(1) have "resolved (foldl (race_settle probe)
        \<lparr>settled = False, pending = int (length cands), resolved = None\<rparr> sched) = Some (Some w)"
    by (auto simp: raceProbes_def split: if_splits option.splits)
  from race_resolved_origin[OF _ this] show ?thesis by auto
qed

lemma resolveNow_writes:
  "snd (resolveNow cfg net sched st) = st \<or>
   (\<exists>w. w \<noteq> [] \<and> w \<in> set (candidates_of cfg) \<union> set sched
        \<and> probeUrl_default net w = Fulfilled (Some w)
        \<and> snd (resolveNow cfg net sched st) = st\<lparr>activeUrl := Some w, storedActiveUrl := Some w\<rparr>)"
proof (cases "raceProbes (probeUrl_default net) (candidates_of cfg) sched")
  case (Fulfilled winner)
  show ?thesis
  proof (cases "truthy winner")
    case True
    then obtain w where w: "winner = Some w" "w \<noteq> []" by (cases winner) auto
    with Fulfilled raceProbes_winner_origin[of "probeUrl_default net" "candidates_of cfg" sched w]
    obtain u where u: "u \<in> set (candidates_of cfg) \<union> set sched" "probeUrl_default net u = Fulfilled (Some w)"
      by auto
    then have "w = u" using probeUrl_value[of net u 3000 "Some w"] by (simp add: probeUrl_default_def)
    with u w Fulfilled True show ?thesis by (auto simp: resolveNow_def)
  next
    case False
    with Fulfilled show ?thesis by (simp add: resolveNow_def)
  qed
qed (simp_all add: resolveNow_def)

text \<open>
  Claim C9, as amended. An operation changes the stored Active URL only if it is
  \<open>resetResolver\<close>, which deletes it, or a resolution pass, which writes a non-empty URL
  whose probe in that pass was fulfilled with it. The cached Active URL changes in the
  same two ways and in one more: \<open>getResolvedServerUrl\<close> with nothing cached sets it
  to the primary URL, unprobed, and leaves the stored record alone.
\<close>

theorem active_url_writers:
  "(storedActiveUrl (run_op cfg op st) \<noteq> storedActiveUrl st \<longrightarrow>
      (op = ResetResolver \<and> storedActiveUrl (run_op cfg op st) = None)
      \<or> (\<exists>net sched w. op = ResolveNow net sched \<and> w \<noteq> []
            \<and> w \<in> set (candidates_of cfg) \<union> set sched
            \<and> probeUrl_default net w = Fulfilled (Some w)
            \<and> storedActiveUrl (run_op cfg op st) = Some w \<and> activeUrl (run_op cfg op st) = Some w))
   \<and> (activeUrl (run_op cfg op st) \<noteq> activeUrl st \<longrightarrow>
      (op = ResetResolver \<and> activeUrl (run_op cfg op st) = None)
      \<or> (\<exists>net sched w. op = ResolveNow net sched \<and> w \<noteq> []
            \<and> w \<in> set (candidates_of cfg) \<union> set sched
            \<and> probeUrl_default net w = Fulfilled (Some w)
            \<and> storedActiveUrl (run_op cfg op st) = Some w \<and> activeUrl (run_op cfg op st) = Some w)
      \<or> (op = GetResolvedServerUrl \<and> \<not> truthy (activeUrl st)
            \<and> activeUrl (run_op cfg op st) = Some (getServerUrl cfg)
            \<and> storedActiveUrl (run_op cfg op st) = storedActiveUrl st))"
proof (cases op)
  case (ResolveNow net sched)
  from resolveNow_writes[of cfg net sched st] show ?thesis
  proof
    assume "snd (resolveNow cfg net sched st) = st"
    with ResolveNow show ?thesis by simp
  next
    assume "\<exists>w. w \<noteq> [] \<and> w \<in> set (candidates_of cfg) \<union> set sched
        \<and> probeUrl_default net w = Fulfilled (Some w)
        \<and> snd (resolveNow cfg net sched st) = st\<lparr>activeUrl := Some w, storedActiveUrl := Some w\<rparr>"
    then obtain w where "w \<noteq> []" "w \<in> set (candidates_of cfg) \<union> set sched"
        "probeUrl_default net w = Fulfilled (Some w)"
        "snd (resolveNow cfg net sched st) = st\<lparr>activeUrl := Some w, storedActiveUrl := Some w\<rparr>"
      by blast
    with ResolveNow show ?thesis by auto
  qed
next
  case GetResolvedServerUrl
  then show ?thesis by (auto simp: getResolvedServerUrl_def Let_def split: option.splits if_splits)
next
  case ResetResolver
  then show ?thesis by (auto simp: resetResolver_def)
next
  case (NotifyConnectionFailed now)
  then show ?thesis by (auto simp: notifyConnectionFailed_def)
next
  case IsUsingLanUrl
  then show ?thesis by simp
qed

theorem active_url_writers_witness:
  "storedActiveUrl (run_op cfg0 (ResolveNow net0 [''https://bad.example'', ''https://good.example''])
                      (initial_resolver None)) \<noteq> storedActiveUrl (initial_resolver None)
   \<and> storedActiveUrl (run_op cfg0 (ResolveNow net0 [''https://bad.example'', ''https://good.example''])
                      (initial_resolver None)) =
      activeUrl (run_op cfg0 (ResolveNow net0 [''https://bad.example'', ''https://good.example''])
                      (initial_resolver None))
   \<and> activeUrl (run_op cfg0 GetResolvedServerUrl (initial_resolver None)) \<noteq> activeUrl (initial_resolver None)
   \<and> storedActiveUrl (run_op cfg0 GetResolvedServerUrl (initial_resolver None)) =
      storedActiveUrl (initial_resolver None)"
proof -
  let ?op = "ResolveNow net0 [''https://bad.example'', ''https://good.example'']"
  let ?st = "initial_resolver None"
  have pg: "probeUrl_default net0 ''https://good.example'' = Fulfilled (Some ''https://good.example'')"
    by (simp add: probeUrl_default_def probeUrl_def probeUrl_try_def net0_def marker_def)
  have pb: "probeUrl_default net0 ''https://bad.example'' = Fulfilled None"
    by (simp add: probeUrl_default_def probeUrl_def probeUrl_try_def net0_def)
  have cs: "candidates_of cfg0 = [''https://good.example'', ''https://bad.example'']"
    by (simp add: cfg0_def candidates_of_def)
  have r: "run_op cfg0 ?op ?st =
             ?st\<lparr>activeUrl := Some ''https://good.example'', storedActiveUrl := Some ''https://good.example''\<rparr>"
    by (simp add: resolveNow_def raceProbes_def cs pg pb race_settle_def race_then_def Let_def)
  have h1: "storedActiveUrl (run_op cfg0 ?op ?st) \<noteq> storedActiveUrl ?st"
    unfolding r by (simp add: initial_resolver_def)
  have h2: "activeUrl (run_op cfg0 GetResolvedServerUrl ?st) \<noteq> activeUrl ?st"
    by (simp add: getResolvedServerUrl_def initial_resolver_def Let_def)
  from active_url_writers[of cfg0 ?op ?st, THEN conjunct1, rule_format, OF h1]
  have 1: "storedActiveUrl (run_op cfg0 ?op ?st) = activeUrl (run_op cfg0 ?op ?st)"
    by (elim disjE exE conjE) simp_all
  from active_url_writers[of cfg0 GetResolvedServerUrl ?st, THEN conjunct2, rule_format, OF h2]
  have 2: "storedActiveUrl (run_op cfg0 GetResolvedServerUrl ?st) = storedActiveUrl ?st"
    by (elim disjE exE conjE) simp_all
  from h1 1 h2 2 show ?thesis by blast
qed

text \<open>
  The claim as it was stated fails for the cached Active URL: on a cold cache
  \<open>getResolvedServerUrl\<close>, which is neither a resolution pass nor the reset, changes it
  from \<open>null\<close> to the primary URL.
\<close>

theorem active_url_unprobed_counterexample:
  "activeUrl (initial_resolver None) = None
   \<and> activeUrl (run_op cfg0 GetResolvedServerUrl (initial_resolver None)) = Some ''https://good.example''
   \<and> \<not> runs_race GetResolvedServerUrl \<and> GetResolvedServerUrl \<noteq> ResetResolver"
  by (simp add: initial_resolver_def getResolvedServerUrl_def cfg0_def Let_def)

section \<open>Properties of the transport session\<close>

subsection \<open>Waiting for the connection\<close>

lemma waitForConnection_timeout:
  assumes "socket s = Some sock" "\<not> sock_connected sock"
      and "connectsAfter env = None \<or> (\<exists>t r. connectsAfter env = Some (t, r) \<and> timeoutMs \<le> t)"
  shows "waitForConnection env timeoutMs s = (Rejected (Error ''Socket connection timeout''), s, [AwaitConnect])"
  using assms by (auto simp: waitForConnection_def Let_def)

lemma waitForConnection_no_socket:
  "socket s = None \<Longrightarrow> waitForConnection env timeoutMs s = (Rejected (Error ''Socket not initialized''), s, [])"
  by (simp add: waitForConnection_def)

lemma waitForConnection_fulfilled_socket:
  "waitForConnection env timeoutMs s = (Fulfilled u, s1, fx) \<Longrightarrow> socket s1 \<noteq> None"
  by (auto simp: waitForConnection_def Let_def updateStatus_def socket_flags_def
           split: option.splits if_splits prod.splits)

subsection \<open>Peer RPC without a cipher\<close>




subsection \<open>Acknowledged sends while not connected\<close>

text \<open>
  Claim C3, as amended. When a socket object exists but is not connected and it fires no
  \<open>connect\<close> event before 10000 ms have passed, \<open>emitWithAck\<close>, and \<open>sessionRPC\<close>
  and \<open>machineRPC\<close> for a peer with a cipher, are rejected with the connection-timeout
  error, having done nothing but wait, and the socket state, connection status
  included, is as before the call. When no socket object exists, \<open>emitWithAck\<close> is
  rejected at once with the not-initialized error, also without any change of state.
\<close>

theorem acknowledged_send_timeout:
  "(socket s = None \<longrightarrow>
      emitWithAck env event data s = (Rejected (Error ''Socket not initialized''), s, []))
   \<and> ((\<exists>sock. socket s = Some sock \<and> \<not> sock_connected sock)
        \<and> (connectsAfter env = None \<or> (\<exists>t r. connectsAfter env = Some (t, r) \<and> 10000 \<le> t))
      \<longrightarrow> emitWithAck env event data s =
             (Rejected (Error ''Socket connection timeout''), s, [AwaitConnect])
        \<and> (\<forall>enc c. encryption s = Some enc \<and> getSessionEncryption enc peer = Some c \<longrightarrow>
              sessionRPC env peer method params s =
                (Rejected (Error ''Socket connection timeout''), s, [AwaitConnect]))
        \<and> (\<forall>enc c. encryption s = Some enc \<and> getMachineEncryption enc peer = Some c \<longrightarrow>
              machineRPC env peer method params s =
                (Rejected (Error ''Socket connection timeout''), s, [AwaitConnect])))"
proof (intro conjI impI)
  assume "socket s = None"
  then show "emitWithAck env event data s = (Rejected (Error ''Socket not initialized''), s, [])"
    by (simp add: emitWithAck_def waitForConnection_no_socket)
next
  assume h: "(\<exists>sock. socket s = Some sock \<and> \<not> sock_connected sock)
        \<and> (connectsAfter env = None \<or> (\<exists>t r. connectsAfter env = Some (t, r) \<and> 10000 \<le> t))"
  then obtain sock where "socket s = Some sock" "\<not> sock_connected sock" by blast
  with h have w: "waitForConnection env 10000 s = (Rejected (Error ''Socket connection timeout''), s, [AwaitConnect])"
    by (intro waitForConnection_timeout) auto
  show "emitWithAck env event data s = (Rejected (Error ''Socket connection timeout''), s, [AwaitConnect])"
    by (simp add: emitWithAck_def w)
  show "\<forall>enc c. encryption s = Some enc \<and> getSessionEncryption enc peer = Some c \<longrightarrow>
              sessionRPC env peer method params s =
                (Rejected (Error ''Socket connection timeout''), s, [AwaitConnect])"
    by (simp add: sessionRPC_def w)
  show "\<forall>enc c. encryption s = Some enc \<and> getMachineEncryption enc peer = Some c \<longrightarrow>
              machineRPC env peer method params s =
                (Rejected (Error ''Socket connection timeout''), s, [AwaitConnect])"
    by (simp add: machineRPC_def w)
qed

theorem acknowledged_send_timeout_witness:
  "emitWithAck env0 ''ping'' (Raw ''x'') api_dropped =
     (Rejected (Error ''Socket connection timeout''), api_dropped, [AwaitConnect])
   \<and> sessionRPC env0 ''S1'' ''m'' ''p'' api_dropped =
     (Rejected (Error ''Socket connection timeout''), api_dropped, [AwaitConnect])
   \<and> machineRPC env0 ''M1'' ''m'' ''p'' api_dropped =
     (Rejected (Error ''Socket connection timeout''), api_dropped, [AwaitConnect])
   \<and> emitWithAck env0 ''ping'' (Raw ''x'') new_ApiSocket =
     (Rejected (Error ''Socket not initialized''), new_ApiSocket, [])"
proof -
  have h: "(\<exists>sock. socket api_dropped = Some sock \<and> \<not> sock_connected sock)
        \<and> (connectsAfter env0 = None \<or> (\<exists>t r. connectsAfter env0 = Some (t, r) \<and> 10000 \<le> t))"
    by (simp add: api_dropped_def api_connected_def env0_def)
  have s: "encryption api_dropped = Some enc0 \<and> getSessionEncryption enc0 ''S1'' = Some (cipher_of ''S1'')"
    by (simp add: api_dropped_def api_connected_def enc0_def)
  have m: "encryption api_dropped = Some enc0 \<and> getMachineEncryption enc0 ''M1'' = Some (cipher_of ''M1'')"
    by (simp add: api_dropped_def api_connected_def enc0_def)
  have n: "socket new_ApiSocket = None" by (simp add: new_ApiSocket_def)
  note T = acknowledged_send_timeout[of api_dropped env0 "''ping''" "Raw ''x''" _ "''m''" "''p''",
             THEN conjunct2, rule_format, OF h]
  from T[of "''S1''"] have 1: "emitWithAck env0 ''ping'' (Raw ''x'') api_dropped =
     (Rejected (Error ''Socket connection timeout''), api_dropped, [AwaitConnect])"
    by (rule conjunct1)
  from T[of "''S1''", THEN conjunct2, THEN conjunct1, rule_format, OF s]
  have 2: "sessionRPC env0 ''S1'' ''m'' ''p'' api_dropped =
     (Rejected (Error ''Socket connection timeout''), api_dropped, [AwaitConnect])" .
  from T[of "''M1''", THEN conjunct2, THEN conjunct2, rule_format, OF m]
  have 3: "machineRPC env0 ''M1'' ''m'' ''p'' api_dropped =
     (Rejected (Error ''Socket connection timeout''), api_dropped, [AwaitConnect])" .
  from acknowledged_send_timeout[of new_ApiSocket env0 "''ping''" "Raw ''x''" "''S1''" "''m''" "''p''",
         THEN conjunct1, rule_format, OF n]
  have 4: "emitWithAck env0 ''ping'' (Raw ''x'') new_ApiSocket =
     (Rejected (Error ''Socket not initialized''), new_ApiSocket, [])" .
  from 1 2 3 4 show ?thesis by blast
qed

text \<open>
  The claim as it was stated fails where the status is \<open>disconnected\<close> because there is
  no socket object, which is the case before the first \<open>connect()\<close> and after
  \<open>disconnect()\<close>: the call does not wait, and its error is not the timeout error.
\<close>

theorem acknowledged_send_timeout_counterexample:
  "currentStatus new_ApiSocket = disconnected
   \<and> connectsAfter env0 = None
   \<and> emitWithAck env0 ''ping'' (Raw ''x'') new_ApiSocket =
       (Rejected (Error ''Socket not initialized''), new_ApiSocket, [])
   \<and> currentStatus (fst (disconnect api_connected)) = disconnected
   \<and> fst (emitWithAck env0 ''ping'' (Raw ''x'') (fst (disconnect api_connected))) =
       Rejected (Error ''Socket not initialized'')
   \<and> Error ''Socket not initialized'' \<noteq> Error ''Socket connection timeout''"
  by (simp add: new_ApiSocket_def emitWithAck_def waitForConnection_def env0_def
                disconnect_def api_connected_def updateStatus_def Let_def)

subsection \<open>Peer RPC with a cipher\<close>

lemma key_injective_no_colon:
  "CHR '':'' \<notin> set p1 \<Longrightarrow> CHR '':'' \<notin> set p2 \<Longrightarrow> p1 @ '':'' @ m1 = p2 @ '':'' @ m2
   \<Longrightarrow> p1 = p2 \<and> m1 = m2"
proof (induction p1 arbitrary: p2)
  case Nil
  then show ?case by (cases p2) auto
next
  case (Cons a p1)
  then show ?case by (cases p2) auto
qed

lemma waitForConnection_encryption:
  "waitForConnection env t (s\<lparr>encryption := e\<rparr>) =
     (case waitForConnection env t s of (r, s1, fx) \<Rightarrow> (r, s1\<lparr>encryption := e\<rparr>, fx))"
  by (auto simp: waitForConnection_def Let_def updateStatus_def socket_flags_def
           split: option.splits prod.splits)

lemma sessionRPC_steps:
  assumes "encryption s = Some enc" "getSessionEncryption enc peer = Some c"
      and "waitForConnection env 10000 s = (Fulfilled u, s1, fx)"
      and "encryptRaw c params = Fulfilled encrypted"
  shows "sessionRPC env peer method params s =
           (case serverAck env ''rpc-call'' (RpcCall (peer @ '':'' @ method) encrypted) of
              Fulfilled res \<Rightarrow> if ok res then decryptRaw c (result res) else Rejected (Error ''RPC call failed'')
            | Rejected e \<Rightarrow> Rejected e
            | Forever \<Rightarrow> Forever,
            s1, fx @ [EmitWithAck ''rpc-call'' (RpcCall (peer @ '':'' @ method) encrypted)])"
proof -
  from waitForConnection_fulfilled_socket[OF assms(3)] obtain sock where "socket s1 = Some sock" by auto
  with assms show ?thesis
    by (simp add: sessionRPC_def Let_def split: promise.splits)
qed

lemma machineRPC_steps:
  assumes "encryption s = Some enc" "getMachineEncryption enc peer = Some c"
      and "waitForConnection env 10000 s = (Fulfilled u, s1, fx)"
      and "encryptRaw c params = Fulfilled encrypted"
  shows "machineRPC env peer method params s =
           (case serverAck env ''rpc-call'' (RpcCall (peer @ '':'' @ method) encrypted) of
              Fulfilled res \<Rightarrow> if ok res then decryptRaw c (result res) else Rejected (Error ''RPC call failed'')
            | Rejected e \<Rightarrow> Rejected e
            | Forever \<Rightarrow> Forever,
            s1, fx @ [EmitWithAck ''rpc-call'' (RpcCall (peer @ '':'' @ method) encrypted)])"
proof -
  from waitForConnection_fulfilled_socket[OF assms(3)] obtain sock where "socket s1 = Some sock" by auto
  with assms show ?thesis
    by (simp add: machineRPC_def Let_def split: promise.splits)
qed

lemma sessionRPC_own_cipher_only:
  assumes "getSessionEncryption enc2 peer = getSessionEncryption enc1 peer"
  shows "fst (sessionRPC env peer method params (s\<lparr>encryption := Some enc2\<rparr>)) =
           fst (sessionRPC env peer method params (s\<lparr>encryption := Some enc1\<rparr>))
       \<and> snd (snd (sessionRPC env peer method params (s\<lparr>encryption := Some enc2\<rparr>))) =
           snd (snd (sessionRPC env peer method params (s\<lparr>encryption := Some enc1\<rparr>)))"
  using assms
  by (cases "waitForConnection env 10000 s")
     (auto simp: sessionRPC_def waitForConnection_encryption Let_def split: option.splits promise.splits prod.splits)

lemma machineRPC_own_cipher_only:
  assumes "getMachineEncryption enc2 peer = getMachineEncryption enc1 peer"
  shows "fst (machineRPC env peer method params (s\<lparr>encryption := Some enc2\<rparr>)) =
           fst (machineRPC env peer method params (s\<lparr>encryption := Some enc1\<rparr>))
       \<and> snd (snd (machineRPC env peer method params (s\<lparr>encryption := Some enc2\<rparr>))) =
           snd (snd (machineRPC env peer method params (s\<lparr>encryption := Some enc1\<rparr>)))"
  using assms
  by (cases "waitForConnection env 10000 s")
     (auto simp: machineRPC_def waitForConnection_encryption Let_def split: option.splits promise.splits prod.splits)

text \<open>
  Claim C6, as amended. For a peer with a cipher, once the connection is there and the
  parameters are encrypted by that cipher, the call emits \<open>rpc-call\<close> with the method
  key \<open>peer:method\<close> and the encrypted parameters, and on an acknowledgement with
  \<open>ok\<close> its result is that cipher's decryption of the acknowledged payload. The
  outcome and the emissions of a call are the same under any two registries that agree
  on the target peer, so no other peer's cipher plays a part. Two calls to distinct
  peers with the same method name use distinct keys, and so do any two calls to distinct
  peers whose identifiers contain no colon.
\<close>

theorem peer_rpc_cipher_and_key:
  "(\<forall>enc c u s1 fx encrypted.
      encryption s = Some enc \<and> getSessionEncryption enc peer = Some c
      \<and> waitForConnection env 10000 s = (Fulfilled u, s1, fx)
      \<and> encryptRaw c params = Fulfilled encrypted
      \<longrightarrow> snd (snd (sessionRPC env peer method params s)) =
            fx @ [EmitWithAck ''rpc-call'' (RpcCall (peer @ '':'' @ method) encrypted)]
        \<and> (\<forall>res. serverAck env ''rpc-call'' (RpcCall (peer @ '':'' @ method) encrypted) = Fulfilled res
                   \<and> ok res
              \<longrightarrow> fst (sessionRPC env peer method params s) = decryptRaw c (result res)))
   \<and> (\<forall>enc c u s1 fx encrypted.
      encryption s = Some enc \<and> getMachineEncryption enc peer = Some c
      \<and> waitForConnection env 10000 s = (Fulfilled u, s1, fx)
      \<and> encryptRaw c params = Fulfilled encrypted
      \<longrightarrow> snd (snd (machineRPC env peer method params s)) =
            fx @ [EmitWithAck ''rpc-call'' (RpcCall (peer @ '':'' @ method) encrypted)]
        \<and> (\<forall>res. serverAck env ''rpc-call'' (RpcCall (peer @ '':'' @ method) encrypted) = Fulfilled res
                   \<and> ok res
              \<longrightarrow> fst (machineRPC env peer method params s) = decryptRaw c (result res)))
   \<and> (\<forall>enc1 enc2. getSessionEncryption enc2 peer = getSessionEncryption enc1 peer
      \<longrightarrow> fst (sessionRPC env peer method params (s\<lparr>encryption := Some enc2\<rparr>)) =
            fst (sessionRPC env peer method params (s\<lparr>encryption := Some enc1\<rparr>))
        \<and> snd (snd (sessionRPC env peer method params (s\<lparr>encryption := Some enc2\<rparr>))) =
            snd (snd (sessionRPC env peer method params (s\<lparr>encryption := Some enc1\<rparr>))))
   \<and> (\<forall>enc1 enc2. getMachineEncryption enc2 peer = getMachineEncryption enc1 peer
      \<longrightarrow> fst (machineRPC env peer method params (s\<lparr>encryption := Some enc2\<rparr>)) =
            fst (machineRPC env peer method params (s\<lparr>encryption := Some enc1\<rparr>))
        \<and> snd (snd (machineRPC env peer method params (s\<lparr>encryption := Some enc2\<rparr>))) =
            snd (snd (machineRPC env peer method params (s\<lparr>encryption := Some enc1\<rparr>))))
   \<and> (\<forall>peer2. peer2 \<noteq> peer \<longrightarrow> peer2 @ '':'' @ method \<noteq> peer @ '':'' @ method)
   \<and> (\<forall>peer2 method2. peer2 \<noteq> peer \<and> CHR '':'' \<notin> set peer \<and> CHR '':'' \<notin> set peer2
      \<longrightarrow> peer2 @ '':'' @ method2 \<noteq> peer @ '':'' @ method)"
proof (intro conjI allI impI)
  fix enc c u s1 fx encrypted
  assume h: "encryption s = Some enc \<and> getSessionEncryption enc peer = Some c
      \<and> waitForConnection env 10000 s = (Fulfilled u, s1, fx)
      \<and> encryptRaw c params = Fulfilled encrypted"
  then have st: "sessionRPC env peer method params s =
           (case serverAck env ''rpc-call'' (RpcCall (peer @ '':'' @ method) encrypted) of
              Fulfilled res \<Rightarrow> if ok res then decryptRaw c (result res) else Rejected (Error ''RPC call failed'')
            | Rejected e \<Rightarrow> Rejected e
            | Forever \<Rightarrow> Forever,
            s1, fx @ [EmitWithAck ''rpc-call'' (RpcCall (peer @ '':'' @ method) encrypted)])"
    by (intro sessionRPC_steps) auto
  show "snd (snd (sessionRPC env peer method params s)) =
            fx @ [EmitWithAck ''rpc-call'' (RpcCall (peer @ '':'' @ method) encrypted)]"
    by (simp add: st)
  fix res
  assume "serverAck env ''rpc-call'' (RpcCall (peer @ '':'' @ method) encrypted) = Fulfilled res \<and> ok res"
  then show "fst (sessionRPC env peer method params s) = decryptRaw c (result res)"
    by (simp add: st)
next
  fix enc c u s1 fx encrypted
  assume h: "encryption s = Some enc \<and> getMachineEncryption enc peer = Some c
      \<and> waitForConnection env 10000 s = (Fulfilled u, s1, fx)
      \<and> encryptRaw c params = Fulfilled encrypted"
  then have st: "machineRPC env peer method params s =
           (case serverAck env ''rpc-call'' (RpcCall (peer @ '':'' @ method) encrypted) of
              Fulfilled res \<Rightarrow> if ok res then decryptRaw c (result res) else Rejected (Error ''RPC call failed'')
            | Rejected e \<Rightarrow> Rejected e
            | Forever \<Rightarrow> Forever,
            s1, fx @ [EmitWithAck ''rpc-call'' (RpcCall (peer @ '':'' @ method) encrypted)])"
    by (intro machineRPC_steps) auto
  show "snd (snd (machineRPC env peer method params s)) =
            fx @ [EmitWithAck ''rpc-call'' (RpcCall (peer @ '':'' @ method) encrypted)]"
    by (simp add: st)
  fix res
  assume "serverAck env ''rpc-call'' (RpcCall (peer @ '':'' @ method) encrypted) = Fulfilled res \<and> ok res"
  then show "fst (machineRPC env peer method params s) = decryptRaw c (result res)"
    by (simp add: st)
next
  fix enc1 enc2 :: encryption_registry
  assume h: "getSessionEncryption enc2 peer = getSessionEncryption enc1 peer"
  from sessionRPC_own_cipher_only[OF h]
  show "fst (sessionRPC env peer method params (s\<lparr>encryption := Some enc2\<rparr>)) =
            fst (sessionRPC env peer method params (s\<lparr>encryption := Some enc1\<rparr>))"
    and "snd (snd (sessionRPC env peer method params (s\<lparr>encryption := Some enc2\<rparr>))) =
            snd (snd (sessionRPC env peer method params (s\<lparr>encryption := Some enc1\<rparr>)))"
    by blast+
next
  fix enc1 enc2 :: encryption_registry
  assume h: "getMachineEncryption enc2 peer = getMachineEncryption enc1 peer"
  from machineRPC_own_cipher_only[OF h]
  show "fst (machineRPC env peer method params (s\<lparr>encryption := Some enc2\<rparr>)) =
            fst (machineRPC env peer method params (s\<lparr>encryption := Some enc1\<rparr>))"
    and "snd (snd (machineRPC env peer method params (s\<lparr>encryption := Some enc2\<rparr>))) =
            snd (snd (machineRPC env peer method params (s\<lparr>encryption := Some enc1\<rparr>)))"
    by blast+
next
  fix peer2 assume "peer2 \<noteq> peer"
  then show "peer2 @ '':'' @ method \<noteq> peer @ '':'' @ method" by simp
next
  fix peer2 method2
  assume "peer2 \<noteq> peer \<and> CHR '':'' \<notin> set peer \<and> CHR '':'' \<notin> set peer2"
  then show "peer2 @ '':'' @ method2 \<noteq> peer @ '':'' @ method"
    by (blast dest: key_injective_no_colon)
qed

theorem peer_rpc_cipher_and_key_witness:
  "sessionRPC env0 ''S1'' ''m'' ''p'' api_connected =
     (Fulfilled ''p'', api_connected, [EmitWithAck ''rpc-call'' (RpcCall ''S1:m'' ''S1|p'')])
   \<and> ''S2'' @ '':'' @ ''m'' \<noteq> ''S1'' @ '':'' @ ''m''"
proof -
  have e: "encryption api_connected = Some enc0" by (simp add: api_connected_def)
  have c: "getSessionEncryption enc0 ''S1'' = Some (cipher_of ''S1'')" by (simp add: enc0_def)
  have w: "waitForConnection env0 10000 api_connected = (Fulfilled (), api_connected, [])"
    by (simp add: waitForConnection_def api_connected_def)
  have x: "encryptRaw (cipher_of ''S1'') ''p'' = Fulfilled ''S1|p''" by (simp add: cipher_of_def)
  have a: "serverAck env0 ''rpc-call'' (RpcCall (''S1'' @ '':'' @ ''m'') ''S1|p'') = Fulfilled \<lparr>ok = True, result = ''S1|p''\<rparr>
           \<and> ok \<lparr>ok = True, result = ''S1|p''\<rparr>"
    by (simp add: env0_def echo_server_def)
  have d: "decryptRaw (cipher_of ''S1'') ''S1|p'' = Fulfilled ''p''" by (simp add: cipher_of_def)
  have n: "''S2'' \<noteq> ''S1''" by simp
  note T = peer_rpc_cipher_and_key[of api_connected "''S1''" env0 "''p''" "''m''"]
  note T1 = T[THEN conjunct1, rule_format, OF conjI[OF e conjI[OF c conjI[OF w x]]]]
  from T1 have fx: "snd (snd (sessionRPC env0 ''S1'' ''m'' ''p'' api_connected)) =
            [] @ [EmitWithAck ''rpc-call'' (RpcCall (''S1'' @ '':'' @ ''m'') ''S1|p'')]"
    by (rule conjunct1)
  from T1[THEN conjunct2, rule_format, OF a]
  have r: "fst (sessionRPC env0 ''S1'' ''m'' ''p'' api_connected)
      = decryptRaw (cipher_of ''S1'') (result \<lparr>ok = True, result = ''S1|p''\<rparr>)" .
  from T[THEN conjunct2, THEN conjunct2, THEN conjunct2, THEN conjunct2, THEN conjunct1, rule_format, OF n]
  have k: "''S2'' @ '':'' @ ''m'' \<noteq> ''S1'' @ '':'' @ ''m''" .
  have s: "fst (snd (sessionRPC env0 ''S1'' ''m'' ''p'' api_connected)) = api_connected"
    using sessionRPC_steps[OF e c w x, of "''m''"] by simp
  from fx r d s k show ?thesis by (cases "sessionRPC env0 ''S1'' ''m'' ''p'' api_connected") simp
qed

text \<open>
  The claim as it was stated, distinct keys for any two calls to distinct peers, fails
  when an identifier contains a colon: the peers \<open>a\<close> and \<open>a:b\<close> are distinct, and
  the calls of \<open>b:c\<close> on the first and of \<open>c\<close> on the second use the same key.
\<close>

theorem peer_rpc_key_collision_counterexample:
  "''a'' \<noteq> ''a:b''
   \<and> snd (snd (sessionRPC env0 ''a'' ''b:c'' ''p'' api_connected)) =
       [EmitWithAck ''rpc-call'' (RpcCall ''a:b:c'' ''a|p'')]
   \<and> snd (snd (sessionRPC env0 ''a:b'' ''c'' ''p'' api_connected)) =
       [EmitWithAck ''rpc-call'' (RpcCall ''a:b:c'' ''a:b|p'')]"
  by (simp add: sessionRPC_def waitForConnection_def api_connected_def enc0_def cipher_of_def
                env0_def echo_server_def Let_def)

subsection \<open>Status listeners\<close>

lemma notified_append: "notified l (xs @ ys) = notified l xs @ notified l ys"
  by (induction l xs rule: notified.induct) auto

lemma notified_all:
  "distinct ls \<Longrightarrow> notified l (map (\<lambda>k. Notify k status) ls) = (if l \<in> set ls then [status] else [])"
  by (induction ls) auto

lemma notified_reconnected: "notified l (map NotifyReconnected ls) = []"
  by (induction ls) auto

lemma run_transport_keeps:
  assumes "distinct (statusListeners s)" "l \<in> set (statusListeners s)" "op \<noteq> OpOffStatusChange l"
  shows "distinct (statusListeners (fst (run_transport op s)))
       \<and> l \<in> set (statusListeners (fst (run_transport op s)))"
proof (cases op)
  case OpConnect
  with assms show ?thesis by (auto simp: connect_def updateStatus_def split: option.splits)
next
  case OpDisconnect
  with assms show ?thesis by (auto simp: disconnect_def updateStatus_def Let_def split: option.splits)
next
  case (OpEvent ev)
  with assms show ?thesis
    by (cases ev) (auto simp: updateStatus_def socket_flags_def split: option.splits)
next
  case (OpOnStatusChange k)
  with assms show ?thesis by (auto simp: onStatusChange_def set_add_def)
next
  case (OpOffStatusChange k)
  with assms show ?thesis by (auto simp: offStatusChange_def set_delete_def)
qed

lemma run_transport_notified:
  assumes "distinct (statusListeners s)" "l \<in> set (statusListeners s)"
  shows "notified l (snd (run_transport op s)) = heard_at l op s"
proof (cases op)
  case OpConnect
  with assms show ?thesis
    by (auto simp: connect_def updateStatus_def notified_append notified_all split: option.splits)
next
  case OpDisconnect
  with assms show ?thesis
    by (auto simp: disconnect_def updateStatus_def Let_def notified_append notified_all split: option.splits)
next
  case (OpEvent ev)
  with assms show ?thesis
    by (cases ev)
       (auto simp: updateStatus_def socket_flags_def notified_append notified_all notified_reconnected
             split: option.splits)
next
  case (OpOnStatusChange k)
  then show ?thesis by (simp add: onStatusChange_def)
next
  case (OpOffStatusChange k)
  then show ?thesis by simp
qed

lemma run_transports_notified:
  "distinct (statusListeners s) \<Longrightarrow> l \<in> set (statusListeners s)
   \<Longrightarrow> OpOffStatusChange l \<notin> set ops
   \<Longrightarrow> notified l (snd (run_transports ops s)) = heard l ops s"
proof (induction ops arbitrary: s)
  case Nil
  then show ?case by simp
next
  case (Cons op ops)
  obtain s1 fx where r: "run_transport op s = (s1, fx)" by (cases "run_transport op s")
  from Cons.prems have ne: "op \<noteq> OpOffStatusChange l" by auto
  from run_transport_keeps[OF Cons.prems(1,2) ne] r
  have k: "distinct (statusListeners s1)" "l \<in> set (statusListeners s1)" by simp_all
  have n1: "notified l fx = heard_at l op s"
    using run_transport_notified[OF Cons.prems(1,2), of op] r by simp
  have "notified l (snd (run_transports ops s1)) = heard l ops s1"
    using k Cons.prems(3) by (intro Cons.IH) simp_all
  then show ?case using r n1
    by (cases "run_transports ops s1") (simp add: notified_append)
qed

lemma onStatusChange_registers:
  "snd (onStatusChange l s) = [Notify l (currentStatus s)]"
  "set (statusListeners (fst (onStatusChange l s))) = insert l (set (statusListeners s))"
  "currentStatus (fst (onStatusChange l s)) = currentStatus s"
  "distinct (statusListeners s) \<Longrightarrow> distinct (statusListeners (fst (onStatusChange l s)))"
  by (auto simp: onStatusChange_def set_add_def)

text \<open>
  Claim C8. \<open>onStatusChange\<close> calls the listener with the current status before it
  returns, and adds it to the registered listeners, which all stay registered; in
  particular a listener registered once the socket has fired \<open>connect\<close> is called with
  \<open>connected\<close> at once. \<open>updateStatus\<close> with a status other than the current one
  calls every registered listener with the new status, and with the current one does
  nothing. Over any series of \<open>connect()\<close>, \<open>disconnect()\<close>, socket events,
  registrations and removals of other listeners, every registered listener is called
  with exactly the statuses the session enters, in order (and with the current status
  when it is registered once more).
\<close>

theorem status_listeners_notified:
  "snd (onStatusChange l s) = [Notify l (currentStatus s)]
   \<and> set (statusListeners (fst (onStatusChange l s))) = insert l (set (statusListeners s))
   \<and> (distinct (statusListeners s) \<longrightarrow> distinct (statusListeners (fst (onStatusChange l s))))
   \<and> currentStatus (fst (onStatusChange l s)) = currentStatus s
   \<and> (\<forall>rec. currentStatus (fst (on_socket_event (EvConnect rec) s)) = connected
         \<and> snd (onStatusChange l (fst (on_socket_event (EvConnect rec) s))) = [Notify l connected])
   \<and> (\<forall>status. status \<noteq> currentStatus s \<longrightarrow>
         updateStatus status s =
           (s\<lparr>currentStatus := status\<rparr>, map (\<lambda>k. Notify k status) (statusListeners s)))
   \<and> updateStatus (currentStatus s) s = (s, [])
   \<and> (\<forall>ops k. distinct (statusListeners s) \<and> k \<in> set (statusListeners s)
                \<and> OpOffStatusChange k \<notin> set ops \<longrightarrow>
         notified k (snd (run_transports ops s)) = heard k ops s)
   \<and> (\<forall>ops. distinct (statusListeners s) \<and> OpOffStatusChange l \<notin> set ops \<longrightarrow>
         notified l (snd (run_transports ops (fst (onStatusChange l s)))) =
           heard l ops (fst (onStatusChange l s)))"
proof -
  have a: "\<forall>rec. currentStatus (fst (on_socket_event (EvConnect rec) s)) = connected
         \<and> snd (onStatusChange l (fst (on_socket_event (EvConnect rec) s))) = [Notify l connected]"
    by (auto simp: onStatusChange_def updateStatus_def split: prod.splits)
  have b: "\<forall>status. status \<noteq> currentStatus s \<longrightarrow>
         updateStatus status s =
           (s\<lparr>currentStatus := status\<rparr>, map (\<lambda>k. Notify k status) (statusListeners s))"
    by (auto simp: updateStatus_def)
  have c: "updateStatus (currentStatus s) s = (s, [])" by (simp add: updateStatus_def)
  have d: "\<forall>ops k. distinct (statusListeners s) \<and> k \<in> set (statusListeners s)
                \<and> OpOffStatusChange k \<notin> set ops \<longrightarrow>
         notified k (snd (run_transports ops s)) = heard k ops s"
    using run_transports_notified[of s] by blast
  have e: "\<forall>ops. distinct (statusListeners s) \<and> OpOffStatusChange l \<notin> set ops \<longrightarrow>
         notified l (snd (run_transports ops (fst (onStatusChange l s)))) =
           heard l ops (fst (onStatusChange l s))"
  proof (intro allI impI)
    fix ops
    assume h: "distinct (statusListeners s) \<and> OpOffStatusChange l \<notin> set ops"
    have "l \<in> set (statusListeners (fst (onStatusChange l s)))"
      by (simp add: onStatusChange_registers(2))
    moreover have "distinct (statusListeners (fst (onStatusChange l s)))"
      using h by (simp add: onStatusChange_registers(4))
    ultimately show "notified l (snd (run_transports ops (fst (onStatusChange l s)))) =
           heard l ops (fst (onStatusChange l s))"
      using h by (intro run_transports_notified) simp_all
  qed
  from a b c d e onStatusChange_registers[where l=l and s=s] show ?thesis by blast
qed

theorem status_listeners_notified_witness:
  "notified 3 (snd (run_transports
       [OpConnect, OpOnStatusChange 5, OpEvent (EvConnect False), OpEvent EvError, OpEvent EvError,
        OpOffStatusChange 5, OpDisconnect]
       (fst (onStatusChange 3 api_configured)))) =
     [connecting, connected, error, disconnected]
   \<and> notified 7 (snd (run_transports [OpOnStatusChange 4, OpEvent EvDisconnect] api_connected)) =
     [disconnected]
   \<and> snd (onStatusChange 4 (fst (on_socket_event (EvConnect False) api_dropped))) = [Notify 4 connected]"
proof -
  let ?ops = "[OpConnect, OpOnStatusChange 5, OpEvent (EvConnect False), OpEvent EvError, OpEvent EvError,
        OpOffStatusChange 5, OpDisconnect]"
  let ?ops2 = "[OpOnStatusChange 4, OpEvent EvDisconnect]"
  have d: "distinct (statusListeners api_configured) \<and> OpOffStatusChange 3 \<notin> set ?ops"
    by (simp add: api_configured_def new_ApiSocket_def)
  have t: "heard 3 ?ops (fst (onStatusChange 3 api_configured)) =
             [connecting, connected, error, disconnected]"
    by (simp add: api_configured_def new_ApiSocket_def onStatusChange_def offStatusChange_def
                  set_add_def set_delete_def connect_def disconnect_def updateStatus_def
                  socket_flags_def Let_def)
  have d2: "distinct (statusListeners api_connected) \<and> 7 \<in> set (statusListeners api_connected)
            \<and> OpOffStatusChange 7 \<notin> set ?ops2"
    by (simp add: api_connected_def)
  have t2: "heard 7 ?ops2 api_connected = [disconnected]"
    by (simp add: api_connected_def onStatusChange_def set_add_def updateStatus_def socket_flags_def Let_def)
  note T = status_listeners_notified[of 3 api_configured]
  from T[THEN conjunct2, THEN conjunct2, THEN conjunct2, THEN conjunct2, THEN conjunct2,
         THEN conjunct2, THEN conjunct2, THEN conjunct2, THEN spec, of ?ops] d
  have "notified 3 (snd (run_transports ?ops (fst (onStatusChange 3 api_configured)))) =
          heard 3 ?ops (fst (onStatusChange 3 api_configured))"
    by (rule mp)
  with t have 1: "notified 3 (snd (run_transports ?ops (fst (onStatusChange 3 api_configured)))) =
          [connecting, connected, error, disconnected]" by simp
  from status_listeners_notified[of 4 api_connected, THEN conjunct2, THEN conjunct2, THEN conjunct2,
         THEN conjunct2, THEN conjunct2, THEN conjunct2, THEN conjunct2, THEN conjunct1,
         THEN spec, of ?ops2, THEN spec, of 7] d2
  have "notified 7 (snd (run_transports ?ops2 api_connected)) = heard 7 ?ops2 api_connected"
    by (rule mp)
  with t2 have 2: "notified 7 (snd (run_transports ?ops2 api_connected)) = [disconnected]" by simp
  from status_listeners_notified[of 4 api_dropped, THEN conjunct2, THEN conjunct2, THEN conjunct2,
         THEN conjunct2, THEN conjunct1, THEN spec, of False]
  have 3: "snd (onStatusChange 4 (fst (on_socket_event (EvConnect False) api_dropped))) = [Notify 4 connected]"
    by (rule conjunct2)
  from 1 2 3 show ?thesis by blast
qed

section \<open>Properties of the resolution lock\<close>

lemma peak_append: "peak fl (xs @ ys) = max (peak fl xs) (peak (foldl flight fl xs) ys)"
proof (induction xs arbitrary: fl)
  case Nil
  have "length fl \<le> peak fl ys" by (cases ys) simp_all
  then show ?case by simp
next
  case (Cons x xs)
  then show ?case by (simp add: max.assoc)
qed

lemma lock_inv_free: "lock_inv lock_free"
  by (simp add: lock_inv_def lock_free_def)

lemma lock_inv_step: "lock_inv s \<Longrightarrow> lock_inv (lock_step s ev)"
proof (cases ev)
  case (Arrive c)
  assume "lock_inv s"
  with Arrive show ?thesis
    by (auto simp: lock_inv_def peak_append split: option.splits)
next
  case PassEnds
  assume "lock_inv s"
  with PassEnds show ?thesis
    by (auto simp: lock_inv_def peak_append split: option.splits)
qed

lemma lock_inv_foldl: "lock_inv s \<Longrightarrow> lock_inv (foldl lock_step s evs)"
  by (induction evs arbitrary: s) (simp_all add: lock_inv_step)

lemma lock_inv_run: "lock_inv (run_lock evs)"
  unfolding run_lock_def by (rule lock_inv_foldl[OF lock_inv_free])

lemma started_only_by_arrival:
  "RaceStarted c \<in> set (races (foldl lock_step s evs))
   \<Longrightarrow> RaceStarted c \<in> set (races s) \<or> Arrive c \<in> set evs"
proof (induction evs arbitrary: s)
  case Nil
  then show ?case by simp
next
  case (Cons ev evs)
  from Cons.prems have "RaceStarted c \<in> set (races (foldl lock_step (lock_step s ev) evs))" by simp
  from Cons.IH[OF this] show ?case
  proof
    assume st: "RaceStarted c \<in> set (races (lock_step s ev))"
    show ?thesis
    proof (cases ev)
      case (Arrive d)
      with st show ?thesis by (auto split: option.splits)
    next
      case PassEnds
      with st show ?thesis by (auto split: option.splits)
    qed
  next
    assume "Arrive c \<in> set evs"
    then show ?thesis by simp
  qed
qed

lemma run_lock_append: "run_lock (evs @ later) = foldl lock_step (run_lock evs) later"
  by (simp add: run_lock_def)

lemma waiter_never_starts:
  assumes "holder (run_lock evs) = Some h" "Arrive c \<notin> set evs" "Arrive c \<notin> set later"
  shows "RaceStarted c \<notin> set (races (run_lock (evs @ Arrive c # later)))"
proof
  assume a: "RaceStarted c \<in> set (races (run_lock (evs @ Arrive c # later)))"
  have before: "RaceStarted c \<notin> set (races (run_lock evs))"
    using started_only_by_arrival[of c lock_free evs] assms(2)
    by (auto simp: run_lock_def lock_free_def)
  have "run_lock (evs @ Arrive c # later) = foldl lock_step (lock_step (run_lock evs) (Arrive c)) later"
    by (simp add: run_lock_append)
  with a have "RaceStarted c \<in> set (races (lock_step (run_lock evs) (Arrive c))) \<or> Arrive c \<in> set later"
    using started_only_by_arrival[of c "lock_step (run_lock evs) (Arrive c)" later] by simp
  with assms(1,3) before show False by simp
qed

text \<open>
  Claim C10. After any series of arrivals and pass ends, at no point of the log of probe
  races has more than one race been started and not finished. A call that arrives while
  a pass is in flight starts no race, leaves that pass in flight and joins the waiting
  calls; whatever happens later, it never starts a race of its own; and when the pass in
  flight ends, the waiting calls return with that pass and the lock is free. A call
  that arrives when no pass is in flight starts its race.
\<close>

theorem resolve_lock_single_flight:
  "peak [] (races (run_lock evs)) \<le> 1
   \<and> (\<forall>h c. holder (run_lock evs) = Some h \<longrightarrow>
         races (run_lock (evs @ [Arrive c])) = races (run_lock evs)
         \<and> holder (run_lock (evs @ [Arrive c])) = Some h
         \<and> c \<in> set (waiters (run_lock (evs @ [Arrive c]))))
   \<and> (\<forall>h c later. holder (run_lock evs) = Some h \<and> Arrive c \<notin> set evs \<and> Arrive c \<notin> set later \<longrightarrow>
         RaceStarted c \<notin> set (races (run_lock (evs @ Arrive c # later))))
   \<and> (\<forall>h. holder (run_lock evs) = Some h \<longrightarrow>
         holder (run_lock (evs @ [PassEnds])) = None
         \<and> waiters (run_lock (evs @ [PassEnds])) = []
         \<and> races (run_lock (evs @ [PassEnds])) = races (run_lock evs) @ [RaceFinished h]
         \<and> served (run_lock (evs @ [PassEnds])) =
             served (run_lock evs) @ map (\<lambda>c. (c, h)) (waiters (run_lock evs)))
   \<and> (\<forall>c. holder (run_lock evs) = None \<longrightarrow>
         races (run_lock (evs @ [Arrive c])) = races (run_lock evs) @ [RaceStarted c])"
proof -
  have 1: "peak [] (races (run_lock evs)) \<le> 1"
    using lock_inv_run[of evs] by (simp add: lock_inv_def)
  have 2: "\<forall>h c. holder (run_lock evs) = Some h \<longrightarrow>
         races (run_lock (evs @ [Arrive c])) = races (run_lock evs)
         \<and> holder (run_lock (evs @ [Arrive c])) = Some h
         \<and> c \<in> set (waiters (run_lock (evs @ [Arrive c])))"
    by (simp add: run_lock_append)
  have 3: "\<forall>h c later. holder (run_lock evs) = Some h \<and> Arrive c \<notin> set evs \<and> Arrive c \<notin> set later \<longrightarrow>
         RaceStarted c \<notin> set (races (run_lock (evs @ Arrive c # later)))"
    using waiter_never_starts[of evs] by blast
  have 4: "\<forall>h. holder (run_lock evs) = Some h \<longrightarrow>
         holder (run_lock (evs @ [PassEnds])) = None
         \<and> waiters (run_lock (evs @ [PassEnds])) = []
         \<and> races (run_lock (evs @ [PassEnds])) = races (run_lock evs) @ [RaceFinished h]
         \<and> served (run_lock (evs @ [PassEnds])) =
             served (run_lock evs) @ map (\<lambda>c. (c, h)) (waiters (run_lock evs))"
    by (simp add: run_lock_append)
  have 5: "\<forall>c. holder (run_lock evs) = None \<longrightarrow>
         races (run_lock (evs @ [Arrive c])) = races (run_lock evs) @ [RaceStarted c]"
    by (simp add: run_lock_append)
  from 1 2 3 4 5 show ?thesis by blast
qed

theorem resolve_lock_single_flight_witness:
  "holder (run_lock [Arrive 1]) = Some 1
   \<and> races (run_lock ([Arrive 1] @ [Arrive 2])) = [RaceStarted 1]
   \<and> 2 \<in> set (waiters (run_lock ([Arrive 1] @ [Arrive 2])))
   \<and> RaceStarted 2 \<notin> set (races (run_lock ([Arrive 1] @ Arrive 2 # [PassEnds, Arrive 3, PassEnds])))
   \<and> served (run_lock ([Arrive 1, Arrive 2] @ [PassEnds])) = [(2, 1)]
   \<and> races (run_lock ([Arrive 1, PassEnds] @ [Arrive 3])) = [RaceStarted 1, RaceFinished 1, RaceStarted 3]
   \<and> peak [] (races (run_lock [Arrive 1, Arrive 2, PassEnds, Arrive 3, Arrive 4, PassEnds])) \<le> 1"
proof -
  have h: "holder (run_lock [Arrive 1]) = Some 1"
    by (simp add: run_lock_def lock_free_def)
  have r: "races (run_lock [Arrive 1]) = [RaceStarted 1]"
    by (simp add: run_lock_def lock_free_def)
  have h3: "holder (run_lock [Arrive 1]) = Some 1 \<and> Arrive 2 \<notin> set [Arrive 1]
            \<and> Arrive 2 \<notin> set [PassEnds, Arrive 3, PassEnds]"
    by (simp add: run_lock_def lock_free_def)
  have h4: "holder (run_lock [Arrive 1, Arrive 2]) = Some 1"
    by (simp add: run_lock_def lock_free_def)
  have s4: "served (run_lock [Arrive 1, Arrive 2]) = [] \<and> waiters (run_lock [Arrive 1, Arrive 2]) = [2]"
    by (simp add: run_lock_def lock_free_def)
  have f: "holder (run_lock [Arrive 1, PassEnds]) = None"
    by (simp add: run_lock_def lock_free_def)
  have r2: "races (run_lock [Arrive 1, PassEnds]) = [RaceStarted 1, RaceFinished 1]"
    by (simp add: run_lock_def lock_free_def)
  from resolve_lock_single_flight[of "[Arrive 1]", THEN conjunct2, THEN conjunct1, rule_format, OF h, of 2] r
  have 1: "races (run_lock ([Arrive 1] @ [Arrive 2])) = [RaceStarted 1]
           \<and> 2 \<in> set (waiters (run_lock ([Arrive 1] @ [Arrive 2])))"
    by simp
  from resolve_lock_single_flight[of "[Arrive 1]", THEN conjunct2, THEN conjunct2, THEN conjunct1,
         THEN spec, of 1, THEN spec, of 2, THEN spec, of "[PassEnds, Arrive 3, PassEnds]"] h3
  have 2: "RaceStarted 2 \<notin> set (races (run_lock ([Arrive 1] @ Arrive 2 # [PassEnds, Arrive 3, PassEnds])))"
    by (rule mp)
  from resolve_lock_single_flight[of "[Arrive 1, Arrive 2]", THEN conjunct2, THEN conjunct2,
         THEN conjunct2, THEN conjunct1, rule_format, OF h4] s4
  have 3: "served (run_lock ([Arrive 1, Arrive 2] @ [PassEnds])) = [(2, 1)]"
    by simp
  from resolve_lock_single_flight[of "[Arrive 1, PassEnds]", THEN conjunct2, THEN conjunct2,
         THEN conjunct2, THEN conjunct2, rule_format, OF f, of 3] r2
  have 4: "races (run_lock ([Arrive 1, PassEnds] @ [Arrive 3])) = [RaceStarted 1, RaceFinished 1, RaceStarted 3]"
    by simp
  from resolve_lock_single_flight[of "[Arrive 1, Arrive 2, PassEnds, Arrive 3, Arrive 4, PassEnds]"]
  have 5: "peak [] (races (run_lock [Arrive 1, Arrive 2, PassEnds, Arrive 3, Arrive 4, PassEnds])) \<le> 1"
    by (rule conjunct1)
  from h 1 2 3 4 5 show ?thesis by blast
qed

end
